theory Spec2Isabelle
  imports Main "HOL-Library.AList"
begin

section \<open>Python values used by the sync engine\<close>

text \<open>
  Exceptions the modelled code can raise: a missing dictionary key
  (\<^verbatim>\<open>local_info['size']\<close>), and \<^verbatim>\<open>ValueError\<close> with its message,
  raised by \<^verbatim>\<open>Path.relative_to\<close> and by \<^verbatim>\<open>Path.stat\<close>. A function that
  can raise returns \<open>py_error + 'a\<close>.
\<close>

datatype py_error = KeyError string | ValueError string

subsection \<open>String methods\<close>

definition startswith :: "string \<Rightarrow> string \<Rightarrow> bool" where
  "startswith s p = (take (length p) s = p)"

text \<open>\<^verbatim>\<open>s.replace('\\', '/')\<close>: every backslash becomes a forward slash.\<close>

definition replace_backslash :: "string \<Rightarrow> string" where
  "replace_backslash s = map (\<lambda>c. if c = CHR 0x5C then CHR ''/'' else c) s"

text \<open>\<^verbatim>\<open>s.split(c)\<close>: never empty, \<^verbatim>\<open>''.split('/') == ['']\<close>.\<close>

fun split_on :: "char \<Rightarrow> string \<Rightarrow> string list" where
  "split_on c [] = [[]]"
| "split_on c (x # xs) =
     (if x = c then [] # split_on c xs
      else (case split_on c xs of
              [] \<Rightarrow> [[x]]
            | w # ws \<Rightarrow> (x # w) # ws))"

text \<open>\<^verbatim>\<open>sep.join(parts)\<close>.\<close>

fun join_with :: "string \<Rightarrow> string list \<Rightarrow> string" where
  "join_with sep [] = []"
| "join_with sep [p] = p"
| "join_with sep (p # q # ps) = p @ sep @ join_with sep (q # ps)"

text \<open>A \<^verbatim>\<open>for\<close> loop whose body can raise: the first exception ends it.\<close>

fun for_each :: "('s \<Rightarrow> 'a \<Rightarrow> 'e + 's) \<Rightarrow> 'a list \<Rightarrow> 's \<Rightarrow> 'e + 's" where
  "for_each body [] s = Inr s"
| "for_each body (x # xs) s =
     (case body s x of Inl e \<Rightarrow> Inl e | Inr s' \<Rightarrow> for_each body xs s')"

subsection \<open>Paths (\<^verbatim>\<open>pathlib\<close>, POSIX flavour)\<close>

text \<open>
  A path is its anchor (\<open>''''\<close> for a relative path, \<open>''/''\<close> or \<open>''//''\<close> for an
  absolute one) and its components. Parsing a string drops empty and \<open>''.''\<close>
  components; joining with a string that parses to an absolute path yields that
  path. \<open>child\<close> is the join with one directory entry name as \<^verbatim>\<open>os.walk\<close>
  reports it.
\<close>

datatype path = Path (anchor: string) (parts: "string list")

definition parse_path :: "string \<Rightarrow> path" where
  "parse_path s =
     Path (if startswith s ''//'' \<and> \<not> startswith s ''///'' then ''//''
           else if startswith s ''/'' then ''/'' else [])
          (filter (\<lambda>c. c \<noteq> [] \<and> c \<noteq> ''.'') (split_on CHR ''/'' s))"

definition truediv :: "path \<Rightarrow> string \<Rightarrow> path" where
  "truediv p s =
     (let q = parse_path s
      in if anchor q \<noteq> [] then q else Path (anchor p) (parts p @ parts q))"

definition child :: "path \<Rightarrow> string \<Rightarrow> path" where
  "child p n = Path (anchor p) (parts p @ [n])"

text \<open>\<^verbatim>\<open>p.relative_to(base)\<close> raises \<^verbatim>\<open>ValueError\<close> (here \<open>None\<close>) unless
  \<open>base\<close> is a prefix of \<open>p\<close>. The message of that error names both paths in
  a wording that differs between Python versions; \<open>not_in_subpath\<close> stands for it
  with the words common to all.\<close>

definition not_in_subpath :: py_error where
  "not_in_subpath = ValueError ''is not in the subpath of''"

definition relative_to :: "path \<Rightarrow> path \<Rightarrow> path option" where
  "relative_to p base =
     (if anchor p = anchor base \<and> take (length (parts base)) (parts p) = parts base
      then Some (Path [] (drop (length (parts base)) (parts p)))
      else None)"

definition path_str :: "path \<Rightarrow> string" where
  "path_str p =
     (if anchor p = [] \<and> parts p = [] then ''.''
      else anchor p @ join_with ''/'' (parts p))"

definition name_of :: "path \<Rightarrow> string" where
  "name_of p = (if parts p = [] then [] else last (parts p))"

subsection \<open>Shell-style wildcards (\<^verbatim>\<open>fnmatch.fnmatch\<close>, POSIX: no case folding)\<close>

text \<open>
  \<^verbatim>\<open>fnmatch.translate\<close> turns a pattern into a regular expression that must match
  the whole name: \<^verbatim>\<open>*\<close> is any string (a slash included), \<^verbatim>\<open>?\<close> any one
  character, \<^verbatim>\<open>[seq]\<close> and \<^verbatim>\<open>[!seq]\<close> a character set with ranges, and a
  \<^verbatim>\<open>[\<close> that is never closed is the literal character.
\<close>

datatype glob_tok = Star | AnyChar | Lit char | CharSet bool "(char \<times> char) list"

fun class_ranges :: "string \<Rightarrow> (char \<times> char) list" where
  "class_ranges (a # b # c # r) =
     (if b = CHR ''-'' then (a, c) # class_ranges r
      else (a, a) # class_ranges (b # c # r))"
| "class_ranges (a # r) = (a, a) # class_ranges r"
| "class_ranges [] = []"

definition bracket :: "string \<Rightarrow> (bool \<times> string \<times> string) option" where
  "bracket r =
     (let neg = (r \<noteq> [] \<and> hd r = CHR ''!'');
          r1 = (if neg then tl r else r);
          lead = (r1 \<noteq> [] \<and> hd r1 = CHR '']'');
          r2 = (if lead then tl r1 else r1)
      in if CHR '']'' \<in> set r2
         then Some (neg,
                    (if lead then '']'' else []) @ takeWhile (\<lambda>c. c \<noteq> CHR '']'') r2,
                    tl (dropWhile (\<lambda>c. c \<noteq> CHR '']'') r2))
         else None)"

function translate :: "string \<Rightarrow> glob_tok list" where
  "translate [] = []"
| "translate (c # p) =
     (if c = CHR ''*'' then Star # translate p
      else if c = CHR ''?'' then AnyChar # translate p
      else if c = CHR ''['' then
        (case bracket p of
           None \<Rightarrow> Lit c # translate p
         | Some (neg, stuff, rest) \<Rightarrow> CharSet neg (class_ranges stuff) # translate rest)
      else Lit c # translate p)"
  by pat_completeness auto
termination
proof (relation "measure length")
  fix c :: char and p :: string and x2 :: "bool \<times> string \<times> string"
    and neg :: bool and y :: "string \<times> string" and stuff rest :: string
  assume "bracket p = Some x2" and "(neg, y) = x2" and "(stuff, rest) = y"
  then have b: "bracket p = Some (neg, stuff, rest)" by simp
  then obtain r2 where r2: "rest = tl (dropWhile (\<lambda>c. c \<noteq> CHR '']'') r2)"
    and len: "length r2 \<le> length p"
    by (auto simp: bracket_def Let_def split: if_splits)
  from length_dropWhile_le [of "\<lambda>c. c \<noteq> CHR '']''" r2] r2 len
  show "(rest, c # p) \<in> measure length" by simp
qed simp_all

definition in_ranges :: "char \<Rightarrow> (char \<times> char) list \<Rightarrow> bool" where
  "in_ranges x rs =
     list_ex (\<lambda>(lo, hi). (of_char lo :: nat) \<le> of_char x \<and> (of_char x :: nat) \<le> of_char hi) rs"

fun glob_match :: "glob_tok list \<Rightarrow> string \<Rightarrow> bool" where
  "glob_match [] s = (s = [])"
| "glob_match (Star # ts) [] = glob_match ts []"
| "glob_match (Star # ts) (x # xs) = (glob_match ts (x # xs) \<or> glob_match (Star # ts) xs)"
| "glob_match (AnyChar # ts) [] = False"
| "glob_match (AnyChar # ts) (x # xs) = glob_match ts xs"
| "glob_match (Lit c # ts) [] = False"
| "glob_match (Lit c # ts) (x # xs) = (x = c \<and> glob_match ts xs)"
| "glob_match (CharSet neg rs # ts) [] = False"
| "glob_match (CharSet neg rs # ts) (x # xs) = (in_ranges x rs \<noteq> neg \<and> glob_match ts xs)"

definition fnmatch :: "string \<Rightarrow> string \<Rightarrow> bool" where
  "fnmatch name pat = glob_match (translate pat) name"

section \<open>The sync object\<close>

text \<open>
  The fields of \<^verbatim>\<open>ZenS3Sync\<close> that the reconciliation code reads. The matcher is
  passed to every function as \<open>fm\<close> (name first, pattern second, as
  \<^verbatim>\<open>fnmatch.fnmatch\<close>), so the general theorems hold for every matcher.
\<close>

record sync_ctx =
  prefix :: string
  zen_roaming_path :: path
  zen_local_path :: path
  exclude_patterns :: "string list"
  include_patterns :: "string list"
  sync_cache_data :: bool
  disable_metadata :: bool

type_synonym matcher = "string \<Rightarrow> string \<Rightarrow> bool"

subsection \<open>Pattern classifier\<close>

definition should_include_file :: "matcher \<Rightarrow> sync_ctx \<Rightarrow> path \<Rightarrow> path \<Rightarrow> py_error + bool" where
  "should_include_file fm ctx file_path base_path =
     (case relative_to file_path base_path of
        None \<Rightarrow> Inl not_in_subpath
      | Some relative_path \<Rightarrow>
          (let str_path = replace_backslash (path_str relative_path)
           in if list_ex (\<lambda>pattern. fm str_path pattern \<or> fm (name_of file_path) pattern)
                   (exclude_patterns ctx)
              then Inr False
              else if list_ex (\<lambda>pattern. fm str_path pattern \<or> fm (name_of file_path) pattern)
                        (include_patterns ctx)
              then Inr True
              else Inr True))"

text \<open>
  \<^verbatim>\<open>_scan_directory\<close>, the test made for each name in \<^verbatim>\<open>dirs\<close>: the name is
  dropped from the walk when it matches the first segment of an exclude pattern that
  contains a slash and the first segment of no such include pattern.
\<close>

definition skip_dir :: "matcher \<Rightarrow> sync_ctx \<Rightarrow> string \<Rightarrow> bool" where
  "skip_dir fm ctx d =
     (let should_skip =
            list_ex (\<lambda>pattern. CHR ''/'' \<in> set pattern \<and> fm d (hd (split_on CHR ''/'' pattern)))
              (exclude_patterns ctx);
          has_important_files =
            (should_skip \<and>
             list_ex (\<lambda>pattern. CHR ''/'' \<in> set pattern \<and> fm d (hd (split_on CHR ''/'' pattern)))
               (include_patterns ctx))
      in should_skip \<and> \<not> has_important_files)"

section \<open>The local file system and the remote store\<close>

text \<open>
  A directory tree as \<^verbatim>\<open>os.walk\<close> sees it: a directory lists its entries by name.
  \<open>stat_of\<close> is the file system when a file is \<^verbatim>\<open>stat\<close>ed and hashed, which
  may be later than the walk: \<open>None\<close> is \<^verbatim>\<open>OSError\<close>. \<open>st_mtime\<close> is the
  truncated \<^verbatim>\<open>int(stat.st_mtime)\<close>, \<open>file_hash\<close> what
  \<^verbatim>\<open>calculate_file_hash\<close> returns (the empty string when the file cannot be read).
\<close>

datatype fs_node = File | Dir "(string \<times> fs_node) list"

record file_stat =
  st_size :: int
  st_mtime :: int
  file_hash :: string

record stored_object =
  obj_size :: int
  last_modified :: int
  obj_etag :: string
  metadata :: "(string \<times> string) list"

record world =
  node_at :: "path \<Rightarrow> fs_node option"
  stat_of :: "path \<Rightarrow> file_stat option"
  bucket :: "(string \<times> stored_object) list"
  accepts_metadata :: bool
  clock :: int

type_synonym file_entry = "path \<times> path \<times> string"

fun scan_files :: "matcher \<Rightarrow> sync_ctx \<Rightarrow> path \<Rightarrow> string \<Rightarrow> path \<Rightarrow> string list
    \<Rightarrow> py_error + file_entry list" where
  "scan_files fm ctx base_path path_type root_path [] = Inr []"
| "scan_files fm ctx base_path path_type root_path (filename # rest) =
     (let file_path = child root_path filename
      in case should_include_file fm ctx file_path base_path of
           Inl e \<Rightarrow> Inl e
         | Inr keep \<Rightarrow>
             (case scan_files fm ctx base_path path_type root_path rest of
                Inl e \<Rightarrow> Inl e
              | Inr files \<Rightarrow>
                  Inr (if keep then (file_path, base_path, path_type) # files else files)))"

text \<open>
  \<^verbatim>\<open>os.walk\<close>, top down: the files of a directory first, then each subdirectory
  that was left in \<^verbatim>\<open>dirs\<close>. Walking something that is not a directory yields
  nothing.
\<close>

fun walk :: "matcher \<Rightarrow> sync_ctx \<Rightarrow> path \<Rightarrow> string \<Rightarrow> path \<Rightarrow> fs_node
    \<Rightarrow> py_error + file_entry list"
and walk_dirs :: "matcher \<Rightarrow> sync_ctx \<Rightarrow> path \<Rightarrow> string \<Rightarrow> path \<Rightarrow> (string \<times> fs_node) list
    \<Rightarrow> py_error + file_entry list" where
  "walk fm ctx base_path path_type root_path File = Inr []"
| "walk fm ctx base_path path_type root_path (Dir entries) =
     (case scan_files fm ctx base_path path_type root_path
             (map fst (filter (\<lambda>(n, nd). nd = File) entries)) of
        Inl e \<Rightarrow> Inl e
      | Inr here \<Rightarrow>
          (case walk_dirs fm ctx base_path path_type root_path entries of
             Inl e \<Rightarrow> Inl e
           | Inr below \<Rightarrow> Inr (here @ below)))"
| "walk_dirs fm ctx base_path path_type root_path [] = Inr []"
| "walk_dirs fm ctx base_path path_type root_path ((d, File) # rest) =
     walk_dirs fm ctx base_path path_type root_path rest"
| "walk_dirs fm ctx base_path path_type root_path ((d, Dir sub) # rest) =
     (if skip_dir fm ctx d then walk_dirs fm ctx base_path path_type root_path rest
      else (case walk fm ctx base_path path_type (child root_path d) (Dir sub) of
              Inl e \<Rightarrow> Inl e
            | Inr files \<Rightarrow>
                (case walk_dirs fm ctx base_path path_type root_path rest of
                   Inl e \<Rightarrow> Inl e
                 | Inr others \<Rightarrow> Inr (files @ others))))"

definition scan_directory :: "matcher \<Rightarrow> sync_ctx \<Rightarrow> world \<Rightarrow> path \<Rightarrow> string
    \<Rightarrow> py_error + file_entry list" where
  "scan_directory fm ctx w base_path path_type =
     (case node_at w base_path of
        None \<Rightarrow> Inr []
      | Some nd \<Rightarrow> walk fm ctx base_path path_type base_path nd)"

text \<open>
  Only the \<^verbatim>\<open>WARNING\<close> and \<^verbatim>\<open>ERROR\<close> records of the logger are kept; the
  \<^verbatim>\<open>INFO\<close> and \<^verbatim>\<open>DEBUG\<close> lines decide nothing.
\<close>

datatype log_level = WARNING | ERROR

type_synonym log = "(log_level \<times> string) list"

definition get_local_files :: "matcher \<Rightarrow> sync_ctx \<Rightarrow> world \<Rightarrow> py_error + (file_entry list \<times> log)" where
  "get_local_files fm ctx w =
     (if node_at w (zen_roaming_path ctx) \<noteq> None then
        (case scan_directory fm ctx w (zen_roaming_path ctx) ''roaming'' of
           Inl e \<Rightarrow> Inl e
         | Inr roaming_files \<Rightarrow>
             (if node_at w (zen_local_path ctx) \<noteq> None \<and> sync_cache_data ctx then
                (case scan_directory fm ctx w (zen_local_path ctx) ''local'' of
                   Inl e \<Rightarrow> Inl e
                 | Inr local_files \<Rightarrow> Inr (roaming_files @ local_files, []))
              else Inr (roaming_files, [])))
      else Inr ([], [(ERROR, ''Roaming directory not found'')]))"

section \<open>Namespace mapper\<close>

definition get_s3_key :: "sync_ctx \<Rightarrow> path \<Rightarrow> path \<Rightarrow> string \<Rightarrow> py_error + string" where
  "get_s3_key ctx file_path base_path path_type =
     (case relative_to file_path base_path of
        None \<Rightarrow> Inl not_in_subpath
      | Some relative_path \<Rightarrow>
          (if path_type \<in> set [''roaming'', ''local'']
           then Inr (replace_backslash (prefix ctx @ path_type @ ''/'' @ path_str relative_path))
           else Inr (replace_backslash (prefix ctx @ path_str relative_path))))"

definition get_relative_s3_key :: "path \<Rightarrow> path \<Rightarrow> string \<Rightarrow> py_error + string" where
  "get_relative_s3_key file_path base_path path_type =
     (case relative_to file_path base_path of
        None \<Rightarrow> Inl not_in_subpath
      | Some relative_path \<Rightarrow>
          (if path_type \<in> set [''roaming'', ''local'']
           then Inr (replace_backslash (path_type @ ''/'' @ path_str relative_path))
           else Inr (replace_backslash (path_str relative_path))))"

text \<open>A \<^verbatim>\<open>Path\<close> object is always true, so the tests
  \<^verbatim>\<open>if self.zen_roaming_path\<close> and \<^verbatim>\<open>self.zen_local_path and ...\<close> reduce to
  the cache flag.\<close>

definition get_download_path :: "sync_ctx \<Rightarrow> string \<Rightarrow> path option" where
  "get_download_path ctx relative_path =
     (if startswith relative_path ''roaming/''
      then Some (truediv (zen_roaming_path ctx) (drop 8 relative_path))
      else if startswith relative_path ''local/''
      then (if sync_cache_data ctx
            then Some (truediv (zen_local_path ctx) (drop 6 relative_path))
            else None)
      else Some (truediv (zen_roaming_path ctx) relative_path))"

section \<open>Identity comparator\<close>

text \<open>
  \<^verbatim>\<open>_get_file_info\<close> builds one of two dictionaries: the full record, or
  \<^verbatim>\<open>{'exists': False}\<close> with no other key. Reading \<^verbatim>\<open>'size'\<close> or
  \<^verbatim>\<open>'mtime'\<close> from the second raises \<^verbatim>\<open>KeyError\<close>.

  The function catches \<^verbatim>\<open>OSError\<close> only. For a path whose text contains the
  NUL character \<^verbatim>\<open>Path.stat\<close> raises \<^verbatim>\<open>ValueError\<close> before it asks the
  file system, and the function passes that error on. No file of a directory scan has
  such a name; a path built from a remote key can.
\<close>

datatype local_info = Missing | Found (info_size: int) (info_mtime: int) (info_hash: string)

record s3_info =
  s3_size :: int
  s3_mtime :: int
  s3_etag :: string
  s3_exists :: bool
  s3_key :: string
  s3_hash :: "string option"

definition has_nul :: "path \<Rightarrow> bool" where
  "has_nul p = (CHR 0x00 \<in> set (path_str p))"

definition embedded_null :: py_error where
  "embedded_null = ValueError ''embedded null byte''"

definition file_record :: "(path \<Rightarrow> file_stat option) \<Rightarrow> path \<Rightarrow> local_info" where
  "file_record st file_path =
     (case st file_path of
        Some s \<Rightarrow> Found (st_size s) (st_mtime s) (file_hash s)
      | None \<Rightarrow> Missing)"

definition get_file_info :: "(path \<Rightarrow> file_stat option) \<Rightarrow> path \<Rightarrow> py_error + local_info" where
  "get_file_info st file_path =
     (if has_nul file_path then Inl embedded_null
      else Inr (file_record st file_path))"

fun info_exists :: "local_info \<Rightarrow> bool" where
  "info_exists Missing = False"
| "info_exists (Found sz mt h) = True"

fun lookup_size :: "local_info \<Rightarrow> py_error + int" where
  "lookup_size Missing = Inl (KeyError ''size'')"
| "lookup_size (Found sz mt h) = Inr sz"

fun lookup_mtime :: "local_info \<Rightarrow> py_error + int" where
  "lookup_mtime Missing = Inl (KeyError ''mtime'')"
| "lookup_mtime (Found sz mt h) = Inr mt"

text \<open>\<^verbatim>\<open>local_info.get('hash')\<close>: \<open>None\<close> when the key is absent.\<close>

fun get_hash :: "local_info \<Rightarrow> string option" where
  "get_hash Missing = None"
| "get_hash (Found sz mt h) = Some h"

text \<open>Truth value of an optional string: \<^verbatim>\<open>None\<close> and the empty string are false.\<close>

fun truthy :: "string option \<Rightarrow> bool" where
  "truthy None = False"
| "truthy (Some h) = (h \<noteq> [])"

definition files_are_different :: "local_info \<Rightarrow> s3_info \<Rightarrow> bool" where
  "files_are_different local_info s3 =
     (if \<not> info_exists local_info \<or> \<not> s3_exists s3 then True
      else if truthy (get_hash local_info) \<and> truthy (s3_hash s3)
              \<and> truthy (get_hash local_info) \<and> truthy (s3_hash s3)
      then get_hash local_info \<noteq> s3_hash s3
      else if lookup_size local_info \<noteq> Inr (s3_size s3) then True
      else False)"

section \<open>Remote listing\<close>

text \<open>\<^verbatim>\<open>obj['ETag'].strip('"')\<close>.\<close>

definition strip_quotes :: "string \<Rightarrow> string" where
  "strip_quotes s =
     rev (dropWhile (\<lambda>c. c = CHR 0x22) (rev (dropWhile (\<lambda>c. c = CHR 0x22) s)))"

definition obj_info :: "sync_ctx \<Rightarrow> string \<Rightarrow> stored_object \<Rightarrow> s3_info" where
  "obj_info ctx key obj =
     \<lparr> s3_size = obj_size obj,
       s3_mtime = last_modified obj,
       s3_etag = strip_quotes (obj_etag obj),
       s3_exists = True,
       s3_key = key,
       s3_hash =
         (if \<not> disable_metadata ctx then
            (case map_of (metadata obj) ''file-hash'' of
               Some h \<Rightarrow> Some h
             | None \<Rightarrow> map_of (metadata obj) ''file_hash'')
          else None) \<rparr>"

text \<open>
  \<^verbatim>\<open>_list_s3_objects\<close>: the objects whose key starts with the prefix, stored in a
  dictionary under the key with the first \<^verbatim>\<open>len(self.prefix)\<close> characters cut off.
  A dictionary is an association list with the update of the library theory AList:
  a key that is already there keeps its place.
\<close>

definition list_s3_objects :: "sync_ctx \<Rightarrow> (string \<times> stored_object) list \<Rightarrow> (string \<times> s3_info) list" where
  "list_s3_objects ctx bkt =
     fold (\<lambda>(key, obj) objects.
             AList.update (drop (length (prefix ctx)) key) (obj_info ctx key obj) objects)
       (filter (\<lambda>(key, obj). startswith key (prefix ctx)) bkt) []"

section \<open>Reconciliation engine\<close>

type_synonym upload_item = "path \<times> string \<times> int \<times> string"
type_synonym download_item = "path \<times> string \<times> int \<times> string"
type_synonym skip_item = "path \<times> string \<times> int"
type_synonym delete_s3_item = "string \<times> string \<times> int"
type_synonym delete_local_item = "path \<times> string \<times> int"

subsection \<open>Push\<close>

text \<open>One pass of the loop of \<^verbatim>\<open>_analyze_upload_files\<close> over a local file.\<close>

definition upload_step :: "sync_ctx \<Rightarrow> (path \<Rightarrow> file_stat option) \<Rightarrow> (string \<times> s3_info) list \<Rightarrow> bool
    \<Rightarrow> upload_item list \<times> skip_item list \<Rightarrow> file_entry
    \<Rightarrow> py_error + (upload_item list \<times> skip_item list)" where
  "upload_step ctx st s3_objects incremental acc entry =
     (case (acc, entry) of ((files_to_upload, files_to_skip), (file_path, base_path, path_type)) \<Rightarrow>
        (case get_s3_key ctx file_path base_path path_type of
           Inl e \<Rightarrow> Inl e
         | Inr s3key \<Rightarrow>
        (case get_relative_s3_key file_path base_path path_type of
           Inl e \<Rightarrow> Inl e
         | Inr relative_s3_key \<Rightarrow>
        (case get_file_info st file_path of
           Inl e \<Rightarrow> Inl e
         | Inr local_info \<Rightarrow>
        (case (if incremental then map_of s3_objects relative_s3_key else None) of
           Some s3_info \<Rightarrow>
             (if \<not> files_are_different local_info s3_info
              then (case lookup_size local_info of
                      Inl e \<Rightarrow> Inl e
                    | Inr sz \<Rightarrow> Inr (files_to_upload, files_to_skip @ [(file_path, s3key, sz)]))
              else (case lookup_size local_info of
                      Inl e \<Rightarrow> Inl e
                    | Inr sz \<Rightarrow>
                        Inr (files_to_upload @ [(file_path, s3key, sz, path_type)], files_to_skip)))
         | None \<Rightarrow>
             (case lookup_size local_info of
                Inl e \<Rightarrow> Inl e
              | Inr sz \<Rightarrow>
                  Inr (files_to_upload @ [(file_path, s3key, sz, path_type)], files_to_skip)))))))"

text \<open>The set comprehension \<^verbatim>\<open>local_s3_keys\<close>, as the list of its elements.\<close>

fun relative_keys :: "file_entry list \<Rightarrow> py_error + string list" where
  "relative_keys [] = Inr []"
| "relative_keys ((file_path, base_path, path_type) # rest) =
     (case get_relative_s3_key file_path base_path path_type of
        Inl e \<Rightarrow> Inl e
      | Inr k \<Rightarrow> (case relative_keys rest of Inl e \<Rightarrow> Inl e | Inr ks \<Rightarrow> Inr (k # ks)))"

definition cleanup_remote :: "(string \<times> s3_info) list \<Rightarrow> string list \<Rightarrow> delete_s3_item list" where
  "cleanup_remote s3_objects local_s3_keys =
     map (\<lambda>(k, s3_info). (k, s3_key s3_info, s3_size s3_info))
       (filter (\<lambda>(k, s3_info). k \<notin> set local_s3_keys) s3_objects)"

definition analyze_upload_files :: "sync_ctx \<Rightarrow> (path \<Rightarrow> file_stat option) \<Rightarrow> file_entry list
    \<Rightarrow> (string \<times> s3_info) list \<Rightarrow> bool \<Rightarrow> bool
    \<Rightarrow> py_error + (upload_item list \<times> skip_item list \<times> delete_s3_item list)" where
  "analyze_upload_files ctx st files s3_objects incremental cleanup =
     (case for_each (upload_step ctx st s3_objects incremental) files ([], []) of
        Inl e \<Rightarrow> Inl e
      | Inr (files_to_upload, files_to_skip) \<Rightarrow>
          (if cleanup then
             (case relative_keys files of
                Inl e \<Rightarrow> Inl e
              | Inr local_s3_keys \<Rightarrow>
                  Inr (files_to_upload, files_to_skip, cleanup_remote s3_objects local_s3_keys))
           else Inr (files_to_upload, files_to_skip, [])))"

subsection \<open>Executor calls\<close>

text \<open>
  What \<^verbatim>\<open>_process_files\<close> hands to the executor. \<open>run\<close> is the executor in its
  environment: \<open>None\<close> when the call returns, \<open>Some e\<close> when it raises an exception
  whose text is \<open>e\<close>. Each call is paired with \<^verbatim>\<open>str(file_args[0])\<close>.
\<close>

datatype sync_op =
    UploadFile path string string
  | DownloadFile string path
  | DeleteS3File string
  | DeleteLocalFile path

definition process_files :: "string \<Rightarrow> bool \<Rightarrow> (sync_op \<Rightarrow> string option) \<Rightarrow> (string \<times> sync_op) list
    \<Rightarrow> bool \<times> log \<times> sync_op list" where
  "process_files action dry_run run calls =
     (if calls = [] then (True, [], [])
      else if dry_run then (True, [], [])
      else (list_all (\<lambda>(arg0, call). run call = None) calls,
            concat (map (\<lambda>(arg0, call).
                      (case run call of
                         None \<Rightarrow> []
                       | Some e \<Rightarrow> [(ERROR, ''Error '' @ action @ '' '' @ arg0 @ '': '' @ e)]))
                    calls),
            map snd calls))"

definition upload_call :: "upload_item \<Rightarrow> string \<times> sync_op" where
  "upload_call item = (case item of (file_path, s3key, sz, path_type) \<Rightarrow>
     (path_str file_path, UploadFile file_path s3key path_type))"

definition download_call :: "download_item \<Rightarrow> string \<times> sync_op" where
  "download_call item = (case item of (local_path, s3key, sz, relative_key) \<Rightarrow>
     (path_str local_path, DownloadFile s3key local_path))"

definition delete_s3_call :: "delete_s3_item \<Rightarrow> string \<times> sync_op" where
  "delete_s3_call item = (case item of (relative_key, s3key, sz) \<Rightarrow>
     (relative_key, DeleteS3File s3key))"

definition delete_local_call :: "delete_local_item \<Rightarrow> string \<times> sync_op" where
  "delete_local_call item = (case item of (file_path, relative_key, sz) \<Rightarrow>
     (path_str file_path, DeleteLocalFile file_path))"

record outcome =
  ok :: bool
  logged :: log
  ops :: "sync_op list"

definition upload_to_s3 :: "matcher \<Rightarrow> sync_ctx \<Rightarrow> world \<Rightarrow> (sync_op \<Rightarrow> string option)
    \<Rightarrow> bool \<Rightarrow> bool \<Rightarrow> bool \<Rightarrow> py_error + outcome" where
  "upload_to_s3 fm ctx w run dry_run incremental cleanup =
     (case get_local_files fm ctx w of
        Inl e \<Rightarrow> Inl e
      | Inr (files, lg) \<Rightarrow>
          (if files = [] then
             Inr \<lparr> ok = False, logged = lg @ [(WARNING, ''No files found to upload'')], ops = [] \<rparr>
           else
             (let s3_objects =
                    (if incremental \<or> cleanup then list_s3_objects ctx (bucket w) else [])
              in case analyze_upload_files ctx (stat_of w) files s3_objects incremental cleanup of
                   Inl e \<Rightarrow> Inl e
                 | Inr (files_to_upload, files_to_skip, files_to_delete) \<Rightarrow>
                     (if files_to_upload = [] \<and> files_to_delete = [] then
                        Inr \<lparr> ok = True, logged = lg, ops = [] \<rparr>
                      else
                        (case process_files ''uploading'' dry_run run
                                (map upload_call files_to_upload) of
                           (upload_success, lg1, ops1) \<Rightarrow>
                        (case (if cleanup \<and> files_to_delete \<noteq> []
                               then process_files ''deleting'' dry_run run
                                      (map delete_s3_call files_to_delete)
                               else (True, [], [])) of
                           (delete_success, lg2, ops2) \<Rightarrow>
                             Inr \<lparr> ok = upload_success \<and> delete_success,
                                   logged = lg @ lg1 @ lg2,
                                   ops = ops1 @ ops2 \<rparr>))))))"

subsection \<open>Pull\<close>

text \<open>\<^verbatim>\<open>str(e)\<close> for the exceptions of the model: the quoted key of a
  \<^verbatim>\<open>KeyError\<close>, the message of a \<^verbatim>\<open>ValueError\<close>.\<close>

fun exc_text :: "py_error \<Rightarrow> string" where
  "exc_text (KeyError k) = [CHR 0x27] @ k @ [CHR 0x27]"
| "exc_text (ValueError m) = m"

text \<open>One pass of the first loop of \<^verbatim>\<open>_analyze_download_files\<close>, over an entry
  of the remote listing. The local path comes from the remote key, so
  \<^verbatim>\<open>_get_file_info\<close> can raise here.\<close>

definition download_step :: "sync_ctx \<Rightarrow> (path \<Rightarrow> file_stat option) \<Rightarrow> bool
    \<Rightarrow> download_item list \<times> skip_item list \<Rightarrow> string \<times> s3_info
    \<Rightarrow> py_error + (download_item list \<times> skip_item list)" where
  "download_step ctx st incremental acc item =
     (case (acc, item) of ((files_to_download, files_to_skip), (relative_s3_key, s3_info)) \<Rightarrow>
        (case get_download_path ctx relative_s3_key of
           None \<Rightarrow> Inr acc
         | Some local_path \<Rightarrow>
             (case get_file_info st local_path of
                Inl e \<Rightarrow> Inl e
              | Inr local_info \<Rightarrow>
                  (if incremental \<and> info_exists local_info
                      \<and> \<not> files_are_different local_info s3_info
                   then Inr (files_to_download,
                             files_to_skip @ [(local_path, s3_key s3_info, s3_size s3_info)])
                   else Inr (files_to_download
                               @ [(local_path, s3_key s3_info, s3_size s3_info, relative_s3_key)],
                             files_to_skip)))))"

text \<open>One pass of the cleanup loop of \<^verbatim>\<open>_analyze_download_files\<close>, over a
  local file.\<close>

definition cleanup_local_step :: "(path \<Rightarrow> file_stat option) \<Rightarrow> (string \<times> s3_info) list
    \<Rightarrow> delete_local_item list \<Rightarrow> file_entry \<Rightarrow> py_error + delete_local_item list" where
  "cleanup_local_step st s3_objects files_to_delete entry =
     (case entry of (file_path, base_path, path_type) \<Rightarrow>
        (case get_relative_s3_key file_path base_path path_type of
           Inl e \<Rightarrow> Inl e
         | Inr relative_s3_key \<Rightarrow>
             (if relative_s3_key \<notin> set (map fst s3_objects) then
                (case get_file_info st file_path of
                   Inl e \<Rightarrow> Inl e
                 | Inr (Found sz mt h) \<Rightarrow>
                     Inr (files_to_delete @ [(file_path, relative_s3_key, sz)])
                 | Inr Missing \<Rightarrow> Inr files_to_delete)
              else Inr files_to_delete)))"

definition cleanup_local :: "(path \<Rightarrow> file_stat option) \<Rightarrow> (string \<times> s3_info) list \<Rightarrow> file_entry list
    \<Rightarrow> py_error + delete_local_item list" where
  "cleanup_local st s3_objects local_files =
     for_each (cleanup_local_step st s3_objects) local_files []"

definition analyze_download_files :: "matcher \<Rightarrow> sync_ctx \<Rightarrow> world \<Rightarrow> (string \<times> s3_info) list
    \<Rightarrow> bool \<Rightarrow> bool
    \<Rightarrow> py_error + (download_item list \<times> skip_item list \<times> delete_local_item list \<times> log)" where
  "analyze_download_files fm ctx w s3_objects incremental cleanup =
     (case for_each (download_step ctx (stat_of w) incremental) s3_objects ([], []) of
        Inl e \<Rightarrow> Inl e
      | Inr (files_to_download, files_to_skip) \<Rightarrow>
          (if cleanup then
             (case get_local_files fm ctx w of
                Inl e \<Rightarrow> Inl e
              | Inr (local_files, lg) \<Rightarrow>
                  (case cleanup_local (stat_of w) s3_objects local_files of
                     Inl e \<Rightarrow> Inl e
                   | Inr files_to_delete \<Rightarrow>
                       Inr (files_to_download, files_to_skip, files_to_delete, lg)))
           else Inr (files_to_download, files_to_skip, [], [])))"

text \<open>The body of \<^verbatim>\<open>download_from_s3\<close> runs under
  \<^verbatim>\<open>except Exception\<close>, so the call itself never raises.\<close>

definition download_from_s3 :: "matcher \<Rightarrow> sync_ctx \<Rightarrow> world \<Rightarrow> (sync_op \<Rightarrow> string option)
    \<Rightarrow> bool \<Rightarrow> bool \<Rightarrow> bool \<Rightarrow> outcome" where
  "download_from_s3 fm ctx w run dry_run incremental cleanup =
     (let s3_objects = list_s3_objects ctx (bucket w)
      in if s3_objects = [] then
           \<lparr> ok = False,
             logged = [(WARNING, ''No objects found in S3 with prefix: '' @ prefix ctx)],
             ops = [] \<rparr>
         else
           (case analyze_download_files fm ctx w s3_objects incremental cleanup of
              Inl e \<Rightarrow>
                \<lparr> ok = False,
                  logged = [(ERROR, ''Error during download: '' @ exc_text e)],
                  ops = [] \<rparr>
            | Inr (files_to_download, files_to_skip, files_to_delete, lg) \<Rightarrow>
                (if files_to_download = [] \<and> files_to_delete = [] then
                   \<lparr> ok = True, logged = lg, ops = [] \<rparr>
                 else
                   (case process_files ''downloading'' dry_run run
                           (map download_call files_to_download) of
                      (download_success, lg1, ops1) \<Rightarrow>
                   (case (if cleanup \<and> files_to_delete \<noteq> []
                          then process_files ''deleting local'' dry_run run
                                 (map delete_local_call files_to_delete)
                          else (True, [], [])) of
                      (delete_success, lg2, ops2) \<Rightarrow>
                        \<lparr> ok = download_success \<and> delete_success,
                          logged = lg @ lg1 @ lg2,
                          ops = ops1 @ ops2 \<rparr>)))))"

subsection \<open>Bidirectional\<close>

record local_entry =
  entry_path :: path
  entry_info :: local_info
  entry_path_type :: string

type_synonym bidi_skip_item = "string \<times> string option \<times> int"
type_synonym bidi_lists = "upload_item list \<times> download_item list \<times> bidi_skip_item list"

definition local_lookup_step :: "(path \<Rightarrow> file_stat option) \<Rightarrow> (string \<times> local_entry) list
    \<Rightarrow> file_entry \<Rightarrow> py_error + (string \<times> local_entry) list" where
  "local_lookup_step st local_lookup entry =
     (case entry of (file_path, base_path, path_type) \<Rightarrow>
        (case get_relative_s3_key file_path base_path path_type of
           Inl e \<Rightarrow> Inl e
         | Inr relative_s3_key \<Rightarrow>
             (case get_file_info st file_path of
                Inl e \<Rightarrow> Inl e
              | Inr local_info \<Rightarrow>
                  Inr (AList.update relative_s3_key
                         \<lparr> entry_path = file_path,
                           entry_info = local_info,
                           entry_path_type = path_type \<rparr>
                         local_lookup))))"

text \<open>
  The three loops of \<^verbatim>\<open>_analyze_bidirectional_sync\<close> run over Python sets. A
  set is iterated in an order that the language leaves open, each element once. The
  order is a parameter of the model: \<open>it\<close> turns the elements of a set, given as a
  list, into the list in which a loop visits them, and \<open>is_set_order\<close> says that
  \<open>it\<close> is such an enumeration. Nothing else is assumed of it.
\<close>

type_synonym set_order = "string list \<Rightarrow> string list"

definition is_set_order :: "set_order \<Rightarrow> bool" where
  "is_set_order it = (\<forall>xs. set (it xs) = set xs \<and> distinct (it xs))"

definition both_step :: "(string \<times> local_entry) list \<Rightarrow> (string \<times> s3_info) list
    \<Rightarrow> bidi_lists \<Rightarrow> string \<Rightarrow> py_error + bidi_lists" where
  "both_step local_lookup s3_objects acc relative_key =
     (case acc of (upload_files, download_files, skip_files) \<Rightarrow>
      (case map_of local_lookup relative_key of
         None \<Rightarrow> Inl (KeyError relative_key)
       | Some local_data \<Rightarrow>
      (case map_of s3_objects relative_key of
         None \<Rightarrow> Inl (KeyError relative_key)
       | Some s3_info \<Rightarrow>
      (let local_info = entry_info local_data
       in if \<not> files_are_different local_info s3_info then
            (case lookup_size local_info of
               Inl e \<Rightarrow> Inl e
             | Inr sz \<Rightarrow>
                 Inr (upload_files, download_files, skip_files @ [(relative_key, None, sz)]))
          else
            (case lookup_mtime local_info of
               Inl e \<Rightarrow> Inl e
             | Inr mt \<Rightarrow>
                 (if mt > s3_mtime s3_info then
                    (case lookup_size local_info of
                       Inl e \<Rightarrow> Inl e
                     | Inr sz \<Rightarrow>
                         Inr (upload_files
                                @ [(entry_path local_data, s3_key s3_info, sz,
                                    entry_path_type local_data)],
                              download_files, skip_files))
                  else
                    Inr (upload_files,
                         download_files
                           @ [(entry_path local_data, s3_key s3_info, s3_size s3_info,
                               relative_key)],
                         skip_files)))))))"

definition local_only_step :: "sync_ctx \<Rightarrow> (string \<times> local_entry) list
    \<Rightarrow> bidi_lists \<Rightarrow> string \<Rightarrow> py_error + bidi_lists" where
  "local_only_step ctx local_lookup acc relative_key =
     (case acc of (upload_files, download_files, skip_files) \<Rightarrow>
      (case map_of local_lookup relative_key of
         None \<Rightarrow> Inl (KeyError relative_key)
       | Some local_data \<Rightarrow>
      (let file_path = entry_path local_data;
           path_type = entry_path_type local_data;
           base_path = (if path_type = ''roaming'' then zen_roaming_path ctx
                        else zen_local_path ctx)
       in case get_s3_key ctx file_path base_path path_type of
            Inl e \<Rightarrow> Inl e
          | Inr s3key \<Rightarrow>
              (case lookup_size (entry_info local_data) of
                 Inl e \<Rightarrow> Inl e
               | Inr sz \<Rightarrow>
                   Inr (upload_files @ [(file_path, s3key, sz, path_type)],
                        download_files, skip_files)))))"

definition remote_only_step :: "sync_ctx \<Rightarrow> (string \<times> s3_info) list
    \<Rightarrow> bidi_lists \<Rightarrow> string \<Rightarrow> py_error + bidi_lists" where
  "remote_only_step ctx s3_objects acc relative_key =
     (case acc of (upload_files, download_files, skip_files) \<Rightarrow>
      (case map_of s3_objects relative_key of
         None \<Rightarrow> Inl (KeyError relative_key)
       | Some s3_info \<Rightarrow>
           (case get_download_path ctx relative_key of
              None \<Rightarrow> Inr acc
            | Some local_path \<Rightarrow>
                Inr (upload_files,
                     download_files
                       @ [(local_path, s3_key s3_info, s3_size s3_info, relative_key)],
                     skip_files))))"

text \<open>\<^verbatim>\<open>set(local_lookup.keys()) & set(s3_objects.keys())\<close> and the two
  differences, each in the order of its loop.\<close>

definition keys_both :: "set_order \<Rightarrow> (string \<times> local_entry) list \<Rightarrow> (string \<times> s3_info) list
    \<Rightarrow> string list" where
  "keys_both it local_lookup s3_objects =
     it (filter (\<lambda>k. k \<in> set (map fst s3_objects)) (map fst local_lookup))"

definition keys_local_only :: "set_order \<Rightarrow> (string \<times> local_entry) list \<Rightarrow> (string \<times> s3_info) list
    \<Rightarrow> string list" where
  "keys_local_only it local_lookup s3_objects =
     it (filter (\<lambda>k. k \<notin> set (map fst s3_objects)) (map fst local_lookup))"

definition keys_remote_only :: "set_order \<Rightarrow> (string \<times> local_entry) list \<Rightarrow> (string \<times> s3_info) list
    \<Rightarrow> string list" where
  "keys_remote_only it local_lookup s3_objects =
     it (filter (\<lambda>k. k \<notin> set (map fst local_lookup)) (map fst s3_objects))"

definition analyze_bidirectional_sync :: "set_order \<Rightarrow> sync_ctx \<Rightarrow> (string \<times> local_entry) list
    \<Rightarrow> (string \<times> s3_info) list \<Rightarrow> py_error + bidi_lists" where
  "analyze_bidirectional_sync it ctx local_lookup s3_objects =
     (case for_each (both_step local_lookup s3_objects)
             (keys_both it local_lookup s3_objects) ([], [], []) of
        Inl e \<Rightarrow> Inl e
      | Inr acc1 \<Rightarrow>
     (case for_each (local_only_step ctx local_lookup)
             (keys_local_only it local_lookup s3_objects) acc1 of
        Inl e \<Rightarrow> Inl e
      | Inr acc2 \<Rightarrow>
          for_each (remote_only_step ctx s3_objects)
            (keys_remote_only it local_lookup s3_objects) acc2))"

definition sync_bidirectional :: "set_order \<Rightarrow> matcher \<Rightarrow> sync_ctx \<Rightarrow> world
    \<Rightarrow> (sync_op \<Rightarrow> string option) \<Rightarrow> bool \<Rightarrow> bool \<Rightarrow> py_error + outcome" where
  "sync_bidirectional it fm ctx w run dry_run cleanup =
     (case get_local_files fm ctx w of
        Inl e \<Rightarrow> Inl e
      | Inr (local_files, lg) \<Rightarrow>
     (let s3_objects = list_s3_objects ctx (bucket w)
      in case for_each (local_lookup_step (stat_of w)) local_files [] of
           Inl e \<Rightarrow> Inl e
         | Inr local_lookup \<Rightarrow>
     (case analyze_bidirectional_sync it ctx local_lookup s3_objects of
        Inl e \<Rightarrow> Inl e
      | Inr (upload_files, download_files, skip_files) \<Rightarrow>
          (if upload_files = [] \<and> download_files = [] then
             Inr \<lparr> ok = True, logged = lg, ops = [] \<rparr>
           else
             (case process_files ''uploading'' dry_run run (map upload_call upload_files) of
                (upload_success, lg1, ops1) \<Rightarrow>
             (case process_files ''downloading'' dry_run run
                     (map download_call download_files) of
                (download_success, lg2, ops2) \<Rightarrow>
                  Inr \<lparr> ok = upload_success \<and> download_success,
                        logged = lg @ lg1 @ lg2,
                        ops = ops1 @ ops2 \<rparr>))))))"

subsection \<open>Executor: upload\<close>

text \<open>Decimal text of an integer, \<^verbatim>\<open>str(int(...))\<close>.\<close>

fun digits :: "nat \<Rightarrow> string" where
  "digits n =
     (if n < 10 then [char_of (48 + n)]
      else digits (n div 10) @ [char_of (48 + n mod 10)])"

definition str_int :: "int \<Rightarrow> string" where
  "str_int i = (if i < 0 then CHR ''-'' # digits (nat (- i)) else digits (nat i))"

text \<open>
  \<^verbatim>\<open>_upload_file\<close> on the remote store. The call raises (\<open>None\<close>) when the file
  cannot be \<^verbatim>\<open>stat\<close>ed or opened, which includes a path with a NUL character;
  an unreadable file is one whose hash is empty. A store that rejects the metadata headers gets the object without them and
  metadata is switched off from then on. The object's size is the file's, its entity
  tag the quoted MD5 digest of the body, its time stamp the store's clock. Other
  store failures are left to \<open>run\<close> above.
\<close>

definition put_object :: "world \<Rightarrow> string \<Rightarrow> file_stat \<Rightarrow> (string \<times> string) list \<Rightarrow> world" where
  "put_object w key s md =
     w\<lparr> bucket :=
          AList.update key
            \<lparr> obj_size = st_size s,
              last_modified = clock w,
              obj_etag = [CHR 0x22] @ file_hash s @ [CHR 0x22],
              metadata = md \<rparr>
            (bucket w) \<rparr>"

definition upload_file :: "sync_ctx \<Rightarrow> world \<Rightarrow> path \<Rightarrow> string \<Rightarrow> string
    \<Rightarrow> (sync_ctx \<times> world) option" where
  "upload_file ctx w file_path s3key path_type =
     (case stat_of w file_path of
        None \<Rightarrow> None
      | Some s \<Rightarrow>
          (if has_nul file_path \<or> file_hash s = [] then None
           else if \<not> disable_metadata ctx then
             (if accepts_metadata w then
                Some (ctx,
                      put_object w s3key s
                        [(''path-type'', path_type),
                         (''original-mtime'', str_int (st_mtime s)),
                         (''file-hash'', file_hash s)])
              else Some (ctx\<lparr> disable_metadata := True \<rparr>, put_object w s3key s []))
           else Some (ctx, put_object w s3key s [])))"

text \<open>\<^verbatim>\<open>_process_files\<close> over the upload list when every call returns.\<close>

fun apply_uploads :: "sync_ctx \<Rightarrow> world \<Rightarrow> upload_item list \<Rightarrow> (sync_ctx \<times> world) option" where
  "apply_uploads ctx w [] = Some (ctx, w)"
| "apply_uploads ctx w ((file_path, s3key, sz, path_type) # rest) =
     (case upload_file ctx w file_path s3key path_type of
        None \<Rightarrow> None
      | Some (ctx', w') \<Rightarrow> apply_uploads ctx' w' rest)"

section \<open>Reference definitions from the specification\<close>

text \<open>\<open>includeFile\<close> as the specification words it, on the path relative to the
  root (with forward slashes) and the bare file name.\<close>

definition includeFile_spec :: "matcher \<Rightarrow> string list \<Rightarrow> string list \<Rightarrow> string \<Rightarrow> string \<Rightarrow> bool" where
  "includeFile_spec fm excl incl rel nm =
     (if \<exists>g \<in> set excl. fm rel g \<or> fm nm g then False
      else if \<exists>g \<in> set incl. fm rel g \<or> fm nm g then True
      else True)"

text \<open>\<open>areDifferent\<close> as the specification words it.\<close>

fun areDifferent_spec :: "local_info \<Rightarrow> s3_info \<Rightarrow> bool" where
  "areDifferent_spec Missing remote = True"
| "areDifferent_spec (Found sz mt h) remote =
     (if \<not> s3_exists remote then True
      else (case s3_hash remote of
              Some g \<Rightarrow> (if h \<noteq> [] \<and> g \<noteq> [] then h \<noteq> g else sz \<noteq> s3_size remote)
            | None \<Rightarrow> sz \<noteq> s3_size remote))"

text \<open>
  Conflict resolution as the specification words it: identical records are skipped;
  different ones are uploaded when the local time is strictly greater than the remote
  time and downloaded otherwise. A local record without a time has no time that is
  strictly greater, so it falls under otherwise. The items are the tuples the analyzer
  appends for a key that both sides have.
\<close>

datatype decision = DoSkip | DoUpload | DoDownload

definition resolve :: "local_info \<Rightarrow> s3_info \<Rightarrow> decision" where
  "resolve l r =
     (if \<not> files_are_different l r then DoSkip
      else (case l of
              Found sz mt h \<Rightarrow> (if mt > s3_mtime r then DoUpload else DoDownload)
            | Missing \<Rightarrow> DoDownload))"

definition decision_for :: "(string \<times> local_entry) list \<Rightarrow> (string \<times> s3_info) list \<Rightarrow> string
    \<Rightarrow> decision" where
  "decision_for local_lookup s3_objects k =
     resolve (entry_info (the (map_of local_lookup k))) (the (map_of s3_objects k))"

definition both_upload_item :: "(string \<times> local_entry) list \<Rightarrow> (string \<times> s3_info) list \<Rightarrow> string
    \<Rightarrow> upload_item" where
  "both_upload_item local_lookup s3_objects k =
     (let e = the (map_of local_lookup k); r = the (map_of s3_objects k)
      in (entry_path e, s3_key r, info_size (entry_info e), entry_path_type e))"

definition both_download_item :: "(string \<times> local_entry) list \<Rightarrow> (string \<times> s3_info) list \<Rightarrow> string
    \<Rightarrow> download_item" where
  "both_download_item local_lookup s3_objects k =
     (let e = the (map_of local_lookup k); r = the (map_of s3_objects k)
      in (entry_path e, s3_key r, s3_size r, k))"

definition both_skip_item :: "(string \<times> local_entry) list \<Rightarrow> string \<Rightarrow> bidi_skip_item" where
  "both_skip_item local_lookup k =
     (k, None, info_size (entry_info (the (map_of local_lookup k))))"

text \<open>The root a local entry belongs to, as \<^verbatim>\<open>_analyze_bidirectional_sync\<close>
  picks it.\<close>

definition base_of :: "sync_ctx \<Rightarrow> string \<Rightarrow> path" where
  "base_of ctx path_type =
     (if path_type = ''roaming'' then zen_roaming_path ctx else zen_local_path ctx)"

text \<open>The tuples the analyzer appends for a key that only the local side has, and
  for a key that only the remote side has and that has a download path.\<close>

definition local_only_item :: "sync_ctx \<Rightarrow> (string \<times> local_entry) list \<Rightarrow> string \<Rightarrow> upload_item" where
  "local_only_item ctx local_lookup k =
     (let e = the (map_of local_lookup k)
      in (entry_path e,
          projr (get_s3_key ctx (entry_path e) (base_of ctx (entry_path_type e))
                   (entry_path_type e)),
          info_size (entry_info e),
          entry_path_type e))"

definition remote_only_item :: "sync_ctx \<Rightarrow> (string \<times> s3_info) list \<Rightarrow> string \<Rightarrow> download_item" where
  "remote_only_item ctx s3_objects k =
     (let r = the (map_of s3_objects k)
      in (the (get_download_path ctx k), s3_key r, s3_size r, k))"

text \<open>An executor call that removes something, on either side.\<close>

fun is_deletion :: "sync_op \<Rightarrow> bool" where
  "is_deletion (UploadFile p k t) = False"
| "is_deletion (DownloadFile k p) = False"
| "is_deletion (DeleteS3File k) = True"
| "is_deletion (DeleteLocalFile p) = True"

text \<open>All files of a tree, each as the list of names leading to it, in the order of
  a top-down walk: the files of a directory, then its subdirectories in turn.\<close>

fun tree_files :: "fs_node \<Rightarrow> string list list"
and sub_files :: "(string \<times> fs_node) list \<Rightarrow> string list list" where
  "tree_files File = []"
| "tree_files (Dir entries) =
     map (\<lambda>n. [n]) (map fst (filter (\<lambda>(n, nd). nd = File) entries)) @ sub_files entries"
| "sub_files [] = []"
| "sub_files ((d, File) # rest) = sub_files rest"
| "sub_files ((d, Dir sub) # rest) = map ((#) d) (tree_files (Dir sub)) @ sub_files rest"

text \<open>The path \<open>segs\<close> below \<open>base\<close>.\<close>

definition below :: "path \<Rightarrow> string list \<Rightarrow> path" where
  "below base segs = Path (anchor base) (parts base @ segs)"

text \<open>
  A file \<open>segs\<close> below the directory \<open>pre\<close> of the walk is kept when no
  directory on the way to it is dropped from the walk and the file-level test keeps
  it.
\<close>

definition kept :: "matcher \<Rightarrow> sync_ctx \<Rightarrow> path \<Rightarrow> string list \<Rightarrow> string list \<Rightarrow> bool" where
  "kept fm ctx base pre segs =
     ((\<forall>d \<in> set (butlast segs). \<not> skip_dir fm ctx d)
      \<and> should_include_file fm ctx (below base (pre @ segs)) base = Inr True)"

section \<open>Example data\<close>

definition example_ctx :: sync_ctx where
  "example_ctx =
     \<lparr> prefix = ''zen/'',
       zen_roaming_path = Path ''/'' [''r''],
       zen_local_path = Path ''/'' [''l''],
       exclude_patterns = [''*.lock'', ''cache2/*''],
       include_patterns = [''*.ini'', ''prefs.js''],
       sync_cache_data = False,
       disable_metadata = False \<rparr>"

definition example_tree :: fs_node where
  "example_tree =
     Dir [(''prefs.js'', File),
          (''cache2'', Dir [(''data.db'', File)]),
          (''p'', Dir [(''cache2'', Dir [(''e'', File)])])]"

definition example_stat :: "path \<Rightarrow> file_stat option" where
  "example_stat =
     map_of
       [(Path ''/'' [''r'', ''prefs.js''], \<lparr> st_size = 100, st_mtime = 50, file_hash = ''h1'' \<rparr>),
        (Path ''/'' [''r'', ''cache2'', ''data.db''],
           \<lparr> st_size = 7, st_mtime = 60, file_hash = ''h2'' \<rparr>),
        (Path ''/'' [''r'', ''p'', ''cache2'', ''e''],
           \<lparr> st_size = 9, st_mtime = 70, file_hash = ''h3'' \<rparr>)]"

definition example_world :: world where
  "example_world =
     \<lparr> node_at = (\<lambda>p. if p = Path ''/'' [''r''] then Some example_tree else None),
       stat_of = example_stat,
       bucket =
         [(''zen/roaming/cache2/data.db'',
             \<lparr> obj_size = 7, last_modified = 40, obj_etag = ''e2'', metadata = [] \<rparr>),
          (''zen/roaming/prefs.js'',
             \<lparr> obj_size = 90, last_modified = 50, obj_etag = ''e1'',
               metadata = [(''file-hash'', ''h0'')] \<rparr>)],
       accepts_metadata = True,
       clock = 80 \<rparr>"

text \<open>An executor in which every call returns.\<close>

definition run_ok :: "sync_op \<Rightarrow> string option" where
  "run_ok call = None"

text \<open>The example world after its files have vanished: the scan still lists them,
  \<^verbatim>\<open>stat\<close> finds none.\<close>

definition vanished_world :: world where
  "vanished_world = example_world\<lparr> stat_of := (\<lambda>p. None) \<rparr>"

text \<open>A world whose bucket holds one object, its key with a NUL character.\<close>

definition nul_world :: world where
  "nul_world =
     \<lparr> node_at = (\<lambda>p. None),
       stat_of = (\<lambda>p. None),
       bucket =
         [(''zen/roaming/a'' @ [CHR 0x00] @ ''b'',
             \<lparr> obj_size = 1, last_modified = 10, obj_etag = ''e'', metadata = [] \<rparr>)],
       accepts_metadata = True,
       clock = 80 \<rparr>"

text \<open>A world whose only local file is excluded and whose bucket is empty.\<close>

definition empty_world :: world where
  "empty_world =
     \<lparr> node_at =
         (\<lambda>p. if p = Path ''/'' [''r''] then Some (Dir [(''parent.lock'', File)]) else None),
       stat_of = (\<lambda>p. None),
       bucket = [],
       accepts_metadata = True,
       clock = 80 \<rparr>"

text \<open>A local lookup and a remote listing with one key of each kind: equal times
  and different content, local newer, and equal hashes.\<close>

definition example_lookup :: "(string \<times> local_entry) list" where
  "example_lookup =
     [(''roaming/a'', \<lparr> entry_path = Path ''/'' [''r'', ''a''], entry_info = Found 10 100 ''h1'',
                        entry_path_type = ''roaming'' \<rparr>),
      (''roaming/b'', \<lparr> entry_path = Path ''/'' [''r'', ''b''], entry_info = Found 20 200 ''h2'',
                        entry_path_type = ''roaming'' \<rparr>),
      (''roaming/c'', \<lparr> entry_path = Path ''/'' [''r'', ''c''], entry_info = Found 30 300 ''h3'',
                        entry_path_type = ''roaming'' \<rparr>)]"

definition example_listing :: "(string \<times> s3_info) list" where
  "example_listing =
     [(''roaming/a'', \<lparr> s3_size = 11, s3_mtime = 100, s3_etag = [], s3_exists = True,
                        s3_key = ''zen/roaming/a'', s3_hash = Some ''x1'' \<rparr>),
      (''roaming/b'', \<lparr> s3_size = 21, s3_mtime = 150, s3_etag = [], s3_exists = True,
                        s3_key = ''zen/roaming/b'', s3_hash = None \<rparr>),
      (''roaming/c'', \<lparr> s3_size = 31, s3_mtime = 999, s3_etag = [], s3_exists = True,
                        s3_key = ''zen/roaming/c'', s3_hash = Some ''h3'' \<rparr>)]"


text \<open>A stored object records a file when it has the file's size and, unless
  metadata is off, the file's hash under \<open>file-hash\<close>.\<close>

definition records :: "sync_ctx \<Rightarrow> file_stat \<Rightarrow> stored_object \<Rightarrow> bool" where
  "records ctx s obj =
     (obj_size obj = st_size s
      \<and> (disable_metadata ctx \<or> map_of (metadata obj) ''file-hash'' = Some (file_hash s)))"

text \<open>
  Two incremental pushes without cleanup in a row, the local files unchanged: the first
  analysis, its uploads applied one after the other, then the second analysis on the
  store as the uploads left it. \<open>None\<close> when the first run raises.
\<close>

definition push_twice :: "sync_ctx \<Rightarrow> world \<Rightarrow> file_entry list
    \<Rightarrow> (py_error + (upload_item list \<times> skip_item list \<times> delete_s3_item list)) option" where
  "push_twice ctx w files =
     (case analyze_upload_files ctx (stat_of w) files (list_s3_objects ctx (bucket w))
             True False of
        Inl e \<Rightarrow> None
      | Inr (files_to_upload, files_to_skip, files_to_delete) \<Rightarrow>
          (case apply_uploads ctx w files_to_upload of
             None \<Rightarrow> None
           | Some (ctx', w') \<Rightarrow>
               Some (analyze_upload_files ctx' (stat_of w') files
                       (list_s3_objects ctx' (bucket w')) True False)))"

text \<open>A POSIX root that holds a file named \<open>a\b\<close> beside a directory \<open>a\<close> with a
  file \<open>b\<close>, and an empty bucket.\<close>

definition collide_world :: world where
  "collide_world =
     \<lparr> node_at =
         (\<lambda>p. if p = Path ''/'' [''r'']
              then Some (Dir [([CHR ''a'', CHR 0x5C, CHR ''b''], File),
                              (''a'', Dir [(''b'', File)])])
              else None),
       stat_of =
         map_of
           [(Path ''/'' [''r'', [CHR ''a'', CHR 0x5C, CHR ''b'']],
               \<lparr> st_size = 1, st_mtime = 10, file_hash = ''h1'' \<rparr>),
            (Path ''/'' [''r'', ''a'', ''b''],
               \<lparr> st_size = 2, st_mtime = 20, file_hash = ''h2'' \<rparr>)],
       bucket = [],
       accepts_metadata = True,
       clock = 80 \<rparr>"

section \<open>Loops of the analyzers\<close>

lemma get_file_info_no_nul: "\<not> has_nul fp \<Longrightarrow> get_file_info st fp = Inr (file_record st fp)"
  by (simp add: get_file_info_def)

lemma upload_step_missing:
  assumes "relative_to fp bp = Some rel" and "st fp = None" and "\<not> has_nul fp"
  shows "upload_step ctx st s3 inc acc (fp, bp, pt) = Inl (KeyError ''size'')"
  using assms
  by (cases acc)
     (auto simp: upload_step_def get_s3_key_def get_relative_s3_key_def get_file_info_def
       file_record_def files_are_different_def split: option.splits)

lemma upload_step_found:
  assumes "relative_to fp bp = Some rel" and "st fp = Some s" and "\<not> has_nul fp"
  shows "\<exists>acc'. upload_step ctx st s3 inc acc (fp, bp, pt) = Inr acc'"
  using assms
  by (cases acc)
     (auto simp: upload_step_def get_s3_key_def get_relative_s3_key_def get_file_info_def
       file_record_def split: option.splits)

lemma push_loop_total:
  assumes "\<forall>(fp, bp, pt) \<in> set files. relative_to fp bp \<noteq> None \<and> \<not> has_nul fp"
  shows "if \<forall>(fp, bp, pt) \<in> set files. st fp \<noteq> None
         then \<exists>r. for_each (upload_step ctx st s3 inc) files acc = Inr r
         else for_each (upload_step ctx st s3 inc) files acc = Inl (KeyError ''size'')"
  using assms
proof (induction files arbitrary: acc)
  case Nil
  show ?case by simp
next
  case (Cons f files)
  obtain fp bp pt where f: "f = (fp, bp, pt)" by (cases f)
  from Cons.prems f obtain rel where rel: "relative_to fp bp = Some rel"
    and nn: "\<not> has_nul fp" by auto
  from Cons.prems have rest:
    "\<forall>(fp, bp, pt) \<in> set files. relative_to fp bp \<noteq> None \<and> \<not> has_nul fp" by simp
  show ?case
  proof (cases "st fp")
    case None
    from upload_step_missing [of fp bp rel st, OF rel None nn] f None show ?thesis by simp
  next
    case (Some s)
    from upload_step_found [of fp bp rel st, OF rel Some nn] obtain acc' where
      a: "upload_step ctx st s3 inc acc (fp, bp, pt) = Inr acc'" by blast
    from Cons.IH [OF rest, of acc'] a f Some show ?thesis by (auto split: if_splits)
  qed
qed

lemma relative_keys_total:
  "\<forall>(fp, bp, pt) \<in> set files. relative_to fp bp \<noteq> None \<Longrightarrow> \<exists>ks. relative_keys files = Inr ks"
  by (induction files) (auto simp: get_relative_s3_key_def split: option.splits)

lemma both_step_found:
  assumes "map_of ll k = Some e" and "map_of s3 k = Some r" and "entry_info e \<noteq> Missing"
  shows "both_step ll s3 (u, d, s) k =
           Inr (u @ (if decision_for ll s3 k = DoUpload then [both_upload_item ll s3 k] else []),
                d @ (if decision_for ll s3 k = DoDownload then [both_download_item ll s3 k] else []),
                s @ (if decision_for ll s3 k = DoSkip then [both_skip_item ll k] else []))"
  using assms
  by (cases "entry_info e")
     (auto simp: both_step_def decision_for_def resolve_def both_upload_item_def
       both_download_item_def both_skip_item_def Let_def)

lemma both_step_missing:
  assumes "map_of ll k = Some e" and "map_of s3 k = Some r" and "entry_info e = Missing"
  shows "both_step ll s3 acc k = Inl (KeyError ''mtime'')"
  using assms
  by (cases acc) (auto simp: both_step_def files_are_different_def Let_def)

lemma both_loop_found:
  assumes "\<forall>k \<in> set ks. \<exists>e r. map_of ll k = Some e \<and> map_of s3 k = Some r \<and> entry_info e \<noteq> Missing"
  shows "for_each (both_step ll s3) ks (u, d, s) =
           Inr (u @ map (both_upload_item ll s3) (filter (\<lambda>k. decision_for ll s3 k = DoUpload) ks),
                d @ map (both_download_item ll s3) (filter (\<lambda>k. decision_for ll s3 k = DoDownload) ks),
                s @ map (both_skip_item ll) (filter (\<lambda>k. decision_for ll s3 k = DoSkip) ks))"
  using assms
proof (induction ks arbitrary: u d s)
  case Nil
  show ?case by simp
next
  case (Cons k ks)
  from Cons.prems obtain e r where
    k: "map_of ll k = Some e" "map_of s3 k = Some r" "entry_info e \<noteq> Missing" by auto
  from Cons.prems have rest:
    "\<forall>k \<in> set ks. \<exists>e r. map_of ll k = Some e \<and> map_of s3 k = Some r \<and> entry_info e \<noteq> Missing"
    by simp
  show ?case
    by (simp add: both_step_found [OF k] Cons.IH [OF rest])
qed

lemma both_loop_missing:
  assumes "\<forall>k \<in> set ks. \<exists>e r. map_of ll k = Some e \<and> map_of s3 k = Some r"
    and "\<exists>k \<in> set ks. entry_info (the (map_of ll k)) = Missing"
  shows "for_each (both_step ll s3) ks acc = Inl (KeyError ''mtime'')"
  using assms
proof (induction ks arbitrary: acc)
  case Nil
  then show ?case by simp
next
  case (Cons k ks)
  from Cons.prems(1) obtain e r where
    k: "map_of ll k = Some e" "map_of s3 k = Some r" by auto
  from Cons.prems(1) have rest:
    "\<forall>k \<in> set ks. \<exists>e r. map_of ll k = Some e \<and> map_of s3 k = Some r" by simp
  show ?case
  proof (cases "entry_info e = Missing")
    case True
    from both_step_missing [OF k True] show ?thesis by simp
  next
    case False
    obtain u d s where acc: "acc = (u, d, s)" by (cases acc)
    from False Cons.prems(2) k have "\<exists>k \<in> set ks. entry_info (the (map_of ll k)) = Missing"
      by auto
    from Cons.IH [OF rest this] both_step_found [OF k False] acc show ?thesis by simp
  qed
qed

lemma local_only_step_found:
  assumes "map_of ll k = Some e" and "entry_info e \<noteq> Missing"
    and "relative_to (entry_path e) (base_of ctx (entry_path_type e)) \<noteq> None"
  shows "local_only_step ctx ll (u, d, s) k = Inr (u @ [local_only_item ctx ll k], d, s)"
  using assms
  by (cases "entry_info e")
     (auto simp: local_only_step_def local_only_item_def get_s3_key_def base_of_def Let_def)

lemma local_only_step_missing:
  assumes "map_of ll k = Some e" and "entry_info e = Missing"
    and "relative_to (entry_path e) (base_of ctx (entry_path_type e)) \<noteq> None"
  shows "local_only_step ctx ll acc k = Inl (KeyError ''size'')"
  using assms
  by (cases acc)
     (auto simp: local_only_step_def get_s3_key_def base_of_def Let_def)

lemma local_only_loop:
  assumes "\<forall>k \<in> set ks. \<exists>e. map_of ll k = Some e \<and> entry_info e \<noteq> Missing
             \<and> relative_to (entry_path e) (base_of ctx (entry_path_type e)) \<noteq> None"
  shows "for_each (local_only_step ctx ll) ks (u, d, s)
           = Inr (u @ map (local_only_item ctx ll) ks, d, s)"
  using assms
proof (induction ks arbitrary: u)
  case Nil
  show ?case by simp
next
  case (Cons k ks)
  from Cons.prems obtain e where
    k: "map_of ll k = Some e" "entry_info e \<noteq> Missing"
       "relative_to (entry_path e) (base_of ctx (entry_path_type e)) \<noteq> None"
    by auto
  from Cons.prems have rest:
    "\<forall>k \<in> set ks. \<exists>e. map_of ll k = Some e \<and> entry_info e \<noteq> Missing
       \<and> relative_to (entry_path e) (base_of ctx (entry_path_type e)) \<noteq> None" by simp
  show ?case
    by (simp add: local_only_step_found [OF k] Cons.IH [OF rest])
qed

lemma local_only_loop_missing:
  assumes "\<forall>k \<in> set ks. \<exists>e. map_of ll k = Some e
             \<and> relative_to (entry_path e) (base_of ctx (entry_path_type e)) \<noteq> None"
    and "\<exists>k \<in> set ks. entry_info (the (map_of ll k)) = Missing"
  shows "for_each (local_only_step ctx ll) ks acc = Inl (KeyError ''size'')"
  using assms
proof (induction ks arbitrary: acc)
  case Nil
  then show ?case by simp
next
  case (Cons k ks)
  from Cons.prems(1) obtain e where
    k: "map_of ll k = Some e"
    and ub: "relative_to (entry_path e) (base_of ctx (entry_path_type e)) \<noteq> None" by auto
  from Cons.prems(1) have rest:
    "\<forall>k \<in> set ks. \<exists>e. map_of ll k = Some e
       \<and> relative_to (entry_path e) (base_of ctx (entry_path_type e)) \<noteq> None" by simp
  show ?case
  proof (cases "entry_info e = Missing")
    case True
    from local_only_step_missing [OF k True ub] show ?thesis by simp
  next
    case False
    obtain u d s where acc: "acc = (u, d, s)" by (cases acc)
    from False Cons.prems(2) k have "\<exists>k \<in> set ks. entry_info (the (map_of ll k)) = Missing"
      by auto
    from Cons.IH [OF rest this] local_only_step_found [OF k False ub] acc
    show ?thesis by simp
  qed
qed

lemma remote_only_loop:
  assumes "\<forall>k \<in> set ks. \<exists>r. map_of s3 k = Some r"
  shows "for_each (remote_only_step ctx s3) ks (u, d, s)
           = Inr (u, d @ map (remote_only_item ctx s3)
                           (filter (\<lambda>k. get_download_path ctx k \<noteq> None) ks), s)"
  using assms
proof (induction ks arbitrary: d)
  case Nil
  show ?case by simp
next
  case (Cons k ks)
  from Cons.prems obtain r where k: "map_of s3 k = Some r" by auto
  from Cons.prems have rest: "\<forall>k \<in> set ks. \<exists>r. map_of s3 k = Some r" by simp
  show ?case
  proof (cases "get_download_path ctx k")
    case None
    with k have "remote_only_step ctx s3 (u, d, s) k = Inr (u, d, s)"
      by (simp add: remote_only_step_def)
    with Cons.IH [OF rest, of d] None show ?thesis by simp
  next
    case (Some lp)
    with k have step: "remote_only_step ctx s3 (u, d, s) k
        = Inr (u, d @ [remote_only_item ctx s3 k], s)"
      by (simp add: remote_only_step_def remote_only_item_def)
    with Cons.IH [OF rest, of "d @ [remote_only_item ctx s3 k]"] Some show ?thesis by simp
  qed
qed

lemma in_keys_lookup:
  "k \<in> set (map fst al) \<Longrightarrow> \<exists>v. map_of al k = Some v \<and> (k, v) \<in> set al"
  by (induction al) auto

lemma lookup_in_keys: "map_of al k = Some v \<Longrightarrow> k \<in> set (map fst al)"
  by (induction al) (auto split: if_splits)

lemma keys_both_mem:
  "is_set_order it \<Longrightarrow>
   k \<in> set (keys_both it ll s3) \<longleftrightarrow> k \<in> set (map fst ll) \<and> k \<in> set (map fst s3)"
  by (simp add: keys_both_def is_set_order_def)

lemma keys_local_only_mem:
  "is_set_order it \<Longrightarrow>
   k \<in> set (keys_local_only it ll s3) \<longleftrightarrow> k \<in> set (map fst ll) \<and> k \<notin> set (map fst s3)"
  by (simp add: keys_local_only_def is_set_order_def)

lemma keys_remote_only_mem:
  "is_set_order it \<Longrightarrow>
   k \<in> set (keys_remote_only it ll s3) \<longleftrightarrow> k \<in> set (map fst s3) \<and> k \<notin> set (map fst ll)"
  by (simp add: keys_remote_only_def is_set_order_def)

lemma keys_distinct:
  "is_set_order it \<Longrightarrow>
   distinct (keys_both it ll s3) \<and> distinct (keys_local_only it ll s3)
     \<and> distinct (keys_remote_only it ll s3)"
  by (simp add: keys_both_def keys_local_only_def keys_remote_only_def is_set_order_def)

lemma is_set_order_remdups: "is_set_order remdups"
  by (simp add: is_set_order_def)

lemma both_keys_have_records:
  assumes "is_set_order it"
  shows "\<forall>k \<in> set (keys_both it ll s3). \<exists>e r. map_of ll k = Some e \<and> map_of s3 k = Some r"
proof
  fix k assume "k \<in> set (keys_both it ll s3)"
  with keys_both_mem [OF assms] have "k \<in> set (map fst ll)" "k \<in> set (map fst s3)" by blast+
  from in_keys_lookup [OF this(1)] in_keys_lookup [OF this(2)]
  show "\<exists>e r. map_of ll k = Some e \<and> map_of s3 k = Some r" by blast
qed

lemma analyze_bidirectional_sync_missing_both:
  assumes "is_set_order it"
    and "map_of local_lookup k = Some e" and "k \<in> set (map fst s3_objects)"
    and "entry_info e = Missing"
  shows "analyze_bidirectional_sync it ctx local_lookup s3_objects = Inl (KeyError ''mtime'')"
proof -
  from assms(2) have "k \<in> set (map fst local_lookup)" by (rule lookup_in_keys)
  with assms(3) keys_both_mem [OF assms(1)]
  have kin: "k \<in> set (keys_both it local_lookup s3_objects)" by blast
  with assms(2,4) have "\<exists>k \<in> set (keys_both it local_lookup s3_objects).
      entry_info (the (map_of local_lookup k)) = Missing"
    by (intro bexI [of _ k]) simp_all
  from both_loop_missing [OF both_keys_have_records [OF assms(1)] this, of "([], [], [])"]
  show ?thesis by (simp add: analyze_bidirectional_sync_def)
qed

lemma analyze_bidirectional_sync_missing_local_only:
  assumes "is_set_order it"
    and ub: "\<forall>k e. map_of local_lookup k = Some e \<longrightarrow>
           relative_to (entry_path e) (base_of ctx (entry_path_type e)) \<noteq> None"
    and both: "\<forall>k e. map_of local_lookup k = Some e \<and> k \<in> set (map fst s3_objects) \<longrightarrow>
           entry_info e \<noteq> Missing"
    and "map_of local_lookup k = Some e" and "k \<notin> set (map fst s3_objects)"
    and "entry_info e = Missing"
  shows "analyze_bidirectional_sync it ctx local_lookup s3_objects = Inl (KeyError ''size'')"
proof -
  let ?ll = local_lookup and ?s3 = s3_objects
  have b: "\<forall>k \<in> set (keys_both it ?ll ?s3).
      \<exists>e r. map_of ?ll k = Some e \<and> map_of ?s3 k = Some r \<and> entry_info e \<noteq> Missing"
  proof
    fix k assume kin: "k \<in> set (keys_both it ?ll ?s3)"
    with both_keys_have_records [OF assms(1)] obtain e r where
      "map_of ?ll k = Some e" "map_of ?s3 k = Some r" by blast
    moreover from kin keys_both_mem [OF assms(1)] have "k \<in> set (map fst ?s3)" by blast
    ultimately show "\<exists>e r. map_of ?ll k = Some e \<and> map_of ?s3 k = Some r
        \<and> entry_info e \<noteq> Missing" using both by blast
  qed
  have l: "\<forall>k \<in> set (keys_local_only it ?ll ?s3). \<exists>e. map_of ?ll k = Some e
             \<and> relative_to (entry_path e) (base_of ctx (entry_path_type e)) \<noteq> None"
  proof
    fix k assume "k \<in> set (keys_local_only it ?ll ?s3)"
    with keys_local_only_mem [OF assms(1)] have "k \<in> set (map fst ?ll)" by blast
    from in_keys_lookup [OF this] ub
    show "\<exists>e. map_of ?ll k = Some e
        \<and> relative_to (entry_path e) (base_of ctx (entry_path_type e)) \<noteq> None" by blast
  qed
  from assms(4) have "k \<in> set (map fst ?ll)" by (rule lookup_in_keys)
  with assms(5) keys_local_only_mem [OF assms(1)]
  have "k \<in> set (keys_local_only it ?ll ?s3)" by blast
  with assms(4,6) have m: "\<exists>k \<in> set (keys_local_only it ?ll ?s3).
      entry_info (the (map_of ?ll k)) = Missing"
    by (intro bexI [of _ k]) simp_all
  show ?thesis
    by (simp add: analyze_bidirectional_sync_def both_loop_found [OF b]
        local_only_loop_missing [OF l m])
qed

lemma analyze_bidirectional_sync_result:
  assumes "is_set_order it"
    and ex: "\<forall>k e. map_of local_lookup k = Some e \<longrightarrow> entry_info e \<noteq> Missing"
    and ub: "\<forall>k e. map_of local_lookup k = Some e \<longrightarrow>
           relative_to (entry_path e) (base_of ctx (entry_path_type e)) \<noteq> None"
  shows "analyze_bidirectional_sync it ctx local_lookup s3_objects =
       Inr (map (both_upload_item local_lookup s3_objects)
              (filter (\<lambda>k. decision_for local_lookup s3_objects k = DoUpload)
                 (keys_both it local_lookup s3_objects))
            @ map (local_only_item ctx local_lookup)
                (keys_local_only it local_lookup s3_objects),
            map (both_download_item local_lookup s3_objects)
              (filter (\<lambda>k. decision_for local_lookup s3_objects k = DoDownload)
                 (keys_both it local_lookup s3_objects))
            @ map (remote_only_item ctx s3_objects)
                (filter (\<lambda>k. get_download_path ctx k \<noteq> None)
                   (keys_remote_only it local_lookup s3_objects)),
            map (both_skip_item local_lookup)
              (filter (\<lambda>k. decision_for local_lookup s3_objects k = DoSkip)
                 (keys_both it local_lookup s3_objects)))"
proof -
  let ?ll = local_lookup and ?s3 = s3_objects
  have b: "\<forall>k \<in> set (keys_both it ?ll ?s3).
      \<exists>e r. map_of ?ll k = Some e \<and> map_of ?s3 k = Some r \<and> entry_info e \<noteq> Missing"
    using both_keys_have_records [OF assms(1), of ?ll ?s3] ex by blast
  have l: "\<forall>k \<in> set (keys_local_only it ?ll ?s3).
      \<exists>e. map_of ?ll k = Some e \<and> entry_info e \<noteq> Missing
        \<and> relative_to (entry_path e) (base_of ctx (entry_path_type e)) \<noteq> None"
  proof
    fix k assume "k \<in> set (keys_local_only it ?ll ?s3)"
    with keys_local_only_mem [OF assms(1)] have "k \<in> set (map fst ?ll)" by blast
    from in_keys_lookup [OF this] ex ub
    show "\<exists>e. map_of ?ll k = Some e \<and> entry_info e \<noteq> Missing
        \<and> relative_to (entry_path e) (base_of ctx (entry_path_type e)) \<noteq> None"
      by blast
  qed
  have r: "\<forall>k \<in> set (keys_remote_only it ?ll ?s3). \<exists>r. map_of ?s3 k = Some r"
  proof
    fix k assume "k \<in> set (keys_remote_only it ?ll ?s3)"
    with keys_remote_only_mem [OF assms(1)] have "k \<in> set (map fst ?s3)" by blast
    from in_keys_lookup [OF this] show "\<exists>r. map_of ?s3 k = Some r" by blast
  qed
  show ?thesis
    by (simp add: analyze_bidirectional_sync_def both_loop_found [OF b]
        local_only_loop [OF l] remote_only_loop [OF r])
qed

section \<open>Strings and paths\<close>

lemma replace_backslash_id: "CHR 0x5C \<notin> set s \<Longrightarrow> replace_backslash s = s"
  by (induction s) (auto simp: replace_backslash_def)

lemma replace_backslash_append:
  "replace_backslash (a @ b) = replace_backslash a @ replace_backslash b"
  by (simp add: replace_backslash_def)









section \<open>The directory walk\<close>

lemma relative_to_below: "relative_to (below base segs) base = Some (Path [] segs)"
  by (simp add: relative_to_def below_def)

lemma should_include_below:
  "\<exists>b. should_include_file fm ctx (below base segs) base = Inr b"
  by (auto simp: should_include_file_def relative_to_below Let_def)

lemma child_below: "child (below base pre) n = below base (pre @ [n])"
  by (simp add: child_def below_def)

lemma tree_files_nonempty:
  "\<forall>segs \<in> set (tree_files node). segs \<noteq> []"
  "\<forall>segs \<in> set (sub_files es). segs \<noteq> []"
  by (induction node and es rule: tree_files_sub_files.induct) auto

lemma scan_files_result:
  "scan_files fm ctx base pt (below base pre) names =
     Inr (map (\<lambda>segs. (below base (pre @ segs), base, pt))
            (filter (kept fm ctx base pre) (map (\<lambda>n. [n]) names)))"
proof (induction names)
  case Nil
  show ?case by simp
next
  case (Cons n names)
  obtain b where b: "should_include_file fm ctx (below base (pre @ [n])) base = Inr b"
    using should_include_below by blast
  show ?case
    by (cases b) (simp_all add: Cons b child_below kept_def)
qed

lemma kept_skipped:
  assumes "skip_dir fm ctx d" and "\<forall>segs \<in> set T. segs \<noteq> []"
  shows "filter (kept fm ctx base pre) (map ((#) d) T) = []"
proof -
  have "\<not> kept fm ctx base pre (d # segs)" if "segs \<in> set T" for segs
  proof -
    from that assms(2) have "segs \<noteq> []" by blast
    then obtain x xs where "segs = x # xs" by (auto simp: neq_Nil_conv)
    with assms(1) show ?thesis by (simp add: kept_def)
  qed
  then show ?thesis by (simp add: filter_empty_conv)
qed

lemma kept_entered:
  assumes "\<not> skip_dir fm ctx d" and "\<forall>segs \<in> set T. segs \<noteq> []"
  shows "map (\<lambda>segs. (below base (pre @ segs), base, pt))
           (filter (kept fm ctx base pre) (map ((#) d) T))
         = map (\<lambda>segs. (below base ((pre @ [d]) @ segs), base, pt))
             (filter (kept fm ctx base (pre @ [d])) T)"
  using assms(2)
proof (induction T)
  case Nil
  show ?case by simp
next
  case (Cons segs T)
  then have "segs \<noteq> []" by simp
  then obtain x xs where s: "segs = x # xs" by (auto simp: neq_Nil_conv)
  from Cons have ih: "map (\<lambda>segs. (below base (pre @ segs), base, pt))
           (filter (kept fm ctx base pre) (map ((#) d) T))
         = map (\<lambda>segs. (below base ((pre @ [d]) @ segs), base, pt))
             (filter (kept fm ctx base (pre @ [d])) T)" by simp
  have k: "kept fm ctx base pre (d # segs) = kept fm ctx base (pre @ [d]) segs"
    using assms(1) s by (simp add: kept_def)
  show ?case
    using ih by (simp add: k)
qed


lemma walk_dirs_result:
  assumes "\<forall>x \<in> set es. \<forall>pre'.
     walk fm ctx base pt (below base pre') (snd x) =
       Inr (map (\<lambda>segs. (below base (pre' @ segs), base, pt))
              (filter (kept fm ctx base pre') (tree_files (snd x))))"
  shows "walk_dirs fm ctx base pt (below base pre) es =
       Inr (map (\<lambda>segs. (below base (pre @ segs), base, pt))
              (filter (kept fm ctx base pre) (sub_files es)))"
  using assms
proof (induction es)
  case Nil
  show ?case by simp
next
  case (Cons x es)
  obtain d nd where x: "x = (d, nd)" by (cases x)
  from Cons.prems have "\<forall>x \<in> set es. \<forall>pre'.
     walk fm ctx base pt (below base pre') (snd x) =
       Inr (map (\<lambda>segs. (below base (pre' @ segs), base, pt))
              (filter (kept fm ctx base pre') (tree_files (snd x))))" by simp
  from Cons.IH [OF this] have
    rest: "walk_dirs fm ctx base pt (below base pre) es =
       Inr (map (\<lambda>segs. (below base (pre @ segs), base, pt))
              (filter (kept fm ctx base pre) (sub_files es)))" .
  show ?case
  proof (cases nd)
    case File
    with rest x show ?thesis by simp
  next
    case (Dir sub)
    note ne = tree_files_nonempty(1) [of "Dir sub"]
    show ?thesis
    proof (cases "skip_dir fm ctx d")
      case True
      from kept_skipped [OF True ne, of base pre] rest x Dir True
      show ?thesis by simp
    next
      case False
      from Cons.prems x Dir have here:
        "walk fm ctx base pt (below base (pre @ [d])) (Dir sub) =
           Inr (map (\<lambda>segs. (below base ((pre @ [d]) @ segs), base, pt))
                  (filter (kept fm ctx base (pre @ [d])) (tree_files (Dir sub))))" by simp
      from kept_entered [OF False ne, of base pre pt] here rest x Dir False
      show ?thesis by (simp add: child_below)
    qed
  qed
qed

lemma walk_result:
  "walk fm ctx base pt (below base pre) node =
     Inr (map (\<lambda>segs. (below base (pre @ segs), base, pt))
            (filter (kept fm ctx base pre) (tree_files node)))"
proof (induction node arbitrary: pre)
  case File
  show ?case by simp
next
  case (Dir es)
  have ih: "\<forall>x \<in> set es. \<forall>pre'.
     walk fm ctx base pt (below base pre') (snd x) =
       Inr (map (\<lambda>segs. (below base (pre' @ segs), base, pt))
              (filter (kept fm ctx base pre') (tree_files (snd x))))"
  proof (intro ballI allI)
    fix x pre' assume "x \<in> set es"
    moreover have "snd x \<in> Basic_BNFs.snds x" by (cases x) (simp add: snds.simps)
    ultimately show "walk fm ctx base pt (below base pre') (snd x) =
       Inr (map (\<lambda>segs. (below base (pre' @ segs), base, pt))
              (filter (kept fm ctx base pre') (tree_files (snd x))))"
      by (rule Dir)
  qed
  show ?case
    by (simp add: scan_files_result walk_dirs_result [OF ih])
qed

section \<open>Keys, the remote listing and uploads\<close>

lemma records_identical:
  "records ctx s obj \<Longrightarrow>
   \<not> files_are_different (Found (st_size s) (st_mtime s) (file_hash s)) (obj_info ctx key obj)"
  by (auto simp: records_def files_are_different_def obj_info_def)

lemma s3_key_of_relative_key:
  assumes "get_relative_s3_key fp bp pt = Inr rk"
  shows "get_s3_key ctx fp bp pt = Inr (replace_backslash (prefix ctx) @ rk)"
  using assms
  by (auto simp: get_s3_key_def get_relative_s3_key_def replace_backslash_append
      split: option.splits if_splits)

lemma relative_keys_mem:
  "relative_keys files = Inr ks \<Longrightarrow> (fp, bp, pt) \<in> set files \<Longrightarrow>
   \<exists>k \<in> set ks. get_relative_s3_key fp bp pt = Inr k"
proof (induction files arbitrary: ks)
  case Nil
  then show ?case by simp
next
  case (Cons f files)
  obtain fp' bp' pt' where f: "f = (fp', bp', pt')" by (cases f)
  from Cons.prems(1) f obtain k ks' where
    k: "get_relative_s3_key fp' bp' pt' = Inr k" "relative_keys files = Inr ks'" "ks = k # ks'"
    by (auto split: sum.splits)
  show ?case
  proof (cases "(fp, bp, pt) = f")
    case True
    with f k show ?thesis by auto
  next
    case False
    with Cons.prems(2) have "(fp, bp, pt) \<in> set files" by simp
    from Cons.IH [OF k(2) this] k(3) show ?thesis by auto
  qed
qed

lemma relative_keys_inj:
  "relative_keys files = Inr ks \<Longrightarrow> distinct ks \<Longrightarrow>
   (fp, bp, pt) \<in> set files \<Longrightarrow> (fp', bp', pt') \<in> set files \<Longrightarrow>
   get_relative_s3_key fp bp pt = Inr k \<Longrightarrow> get_relative_s3_key fp' bp' pt' = Inr k \<Longrightarrow>
   (fp, bp, pt) = (fp', bp', pt')"
proof (induction files arbitrary: ks)
  case Nil
  then show ?case by simp
next
  case (Cons f files)
  obtain fp0 bp0 pt0 where f: "f = (fp0, bp0, pt0)" by (cases f)
  from Cons.prems(1) f obtain k0 ks' where
    k: "get_relative_s3_key fp0 bp0 pt0 = Inr k0" "relative_keys files = Inr ks'" "ks = k0 # ks'"
    by (auto split: sum.splits)
  from Cons.prems(2) k(3) have d: "k0 \<notin> set ks'" "distinct ks'" by auto
  have other: "k0 \<noteq> k" if "(a, b, c) \<in> set files" "get_relative_s3_key a b c = Inr k" for a b c
    using relative_keys_mem [OF k(2) that(1)] that(2) d(1) by auto
  show ?case
  proof (cases "(fp, bp, pt) = f")
    case True
    note T = this
    show ?thesis
    proof (cases "(fp', bp', pt') = f")
      case True
      with T show ?thesis by simp
    next
      case False
      with Cons.prems(4) have "(fp', bp', pt') \<in> set files" by simp
      from other [OF this Cons.prems(6)] T f k(1) Cons.prems(5) show ?thesis by simp
    qed
  next
    case False
    with Cons.prems(3) have in1: "(fp, bp, pt) \<in> set files" by simp
    show ?thesis
    proof (cases "(fp', bp', pt') = f")
      case True
      with other [OF in1 Cons.prems(5)] f k(1) Cons.prems(6) show ?thesis by simp
    next
      case False
      with Cons.prems(4) have "(fp', bp', pt') \<in> set files" by simp
      from Cons.IH [OF k(2) d(2) in1 this Cons.prems(5) Cons.prems(6)] show ?thesis .
    qed
  qed
qed

lemma fold_update_lookup:
  "distinct (map kf xs) \<Longrightarrow>
   map_of (fold (\<lambda>x acc. AList.update (kf x) (vf x) acc) xs acc) k =
     (case map_of (map (\<lambda>x. (kf x, vf x)) xs) k of
        Some v \<Rightarrow> Some v
      | None \<Rightarrow> map_of acc k)"
proof (induction xs arbitrary: acc)
  case Nil
  show ?case by simp
next
  case (Cons x xs)
  from Cons.prems have d: "distinct (map kf xs)" and n: "kf x \<notin> set (map kf xs)" by auto
  have none: "map_of (map (\<lambda>x. (kf x, vf x)) xs) (kf x) = None"
    using n by (simp add: map_of_eq_None_iff image_image)
  show ?case
    using Cons.IH [OF d, of "AList.update (kf x) (vf x) acc"] none
    by (auto simp: update_conv' split: option.splits)
qed

lemma listing_lookup_aux:
  "map_of (map (\<lambda>(key, obj). (drop (length p) key, obj_info ctx key obj))
             (filter (\<lambda>(key, obj). startswith key p) bkt)) rk
     = map_option (obj_info ctx (p @ rk)) (map_of bkt (p @ rk))"
proof (induction bkt)
  case Nil
  show ?case by simp
next
  case (Cons x bkt)
  obtain key obj where x: "x = (key, obj)" by (cases x)
  show ?case
  proof (cases "startswith key p")
    case True
    then have key: "key = p @ drop (length p) key"
      by (metis append_take_drop_id startswith_def)
    show ?thesis
    proof (cases "drop (length p) key = rk")
      case True
      with key x \<open>startswith key p\<close> show ?thesis by simp
    next
      case False
      then have "key \<noteq> p @ rk" by auto
      with Cons x True False show ?thesis by simp
    qed
  next
    case False
    then have "key \<noteq> p @ rk" by (auto simp: startswith_def)
    with Cons x False show ?thesis by simp
  qed
qed

lemma listing_lookup:
  assumes "distinct (map fst bkt)"
  shows "map_of (list_s3_objects ctx bkt) rk
     = map_option (obj_info ctx (prefix ctx @ rk)) (map_of bkt (prefix ctx @ rk))"
proof -
  let ?p = "prefix ctx"
  let ?xs = "filter (\<lambda>(key, obj). startswith key ?p) bkt"
  have inj: "inj_on (\<lambda>x. drop (length ?p) (fst x)) (set ?xs)"
  proof (rule inj_onI)
    fix x y assume "x \<in> set ?xs" "y \<in> set ?xs"
      and e: "drop (length ?p) (fst x) = drop (length ?p) (fst y)"
    then have sx: "startswith (fst x) ?p" and sy: "startswith (fst y) ?p"
      and mx: "x \<in> set bkt" and my: "y \<in> set bkt" by auto
    from sx have "fst x = ?p @ drop (length ?p) (fst x)"
      by (metis append_take_drop_id startswith_def)
    moreover from sy have "fst y = ?p @ drop (length ?p) (fst y)"
      by (metis append_take_drop_id startswith_def)
    ultimately have "fst x = fst y" using e by simp
    with assms mx my show "x = y"
      by (metis eq_key_imp_eq_value prod.collapse)
  qed
  have dx: "distinct ?xs"
    using assms by (simp add: distinct_map)
  have d: "distinct (map (\<lambda>x. drop (length ?p) (fst x)) ?xs)"
    using inj dx by (simp add: distinct_map)
  have f: "list_s3_objects ctx bkt =
      fold (\<lambda>x acc. AList.update (drop (length ?p) (fst x)) (obj_info ctx (fst x) (snd x)) acc)
        ?xs []"
    by (simp add: list_s3_objects_def case_prod_unfold)
  have m: "map (\<lambda>x. (drop (length ?p) (fst x), obj_info ctx (fst x) (snd x))) ?xs
      = map (\<lambda>(key, obj). (drop (length ?p) key, obj_info ctx key obj)) ?xs"
    by (simp add: case_prod_unfold)
  show ?thesis
    unfolding f
    by (simp only: fold_update_lookup [OF d] m listing_lookup_aux)
       (simp split: option.splits)
qed

lemma upload_file_result:
  assumes "upload_file ctx w fp k pt = Some (ctx', w')"
    and "accepts_metadata w \<or> disable_metadata ctx"
  shows "ctx' = ctx \<and> stat_of w' = stat_of w \<and> accepts_metadata w' = accepts_metadata w
     \<and> (\<exists>s obj. stat_of w fp = Some s \<and> records ctx s obj
           \<and> bucket w' = AList.update k obj (bucket w))"
proof -
  from assms(1) obtain s where s: "stat_of w fp = Some s" "file_hash s \<noteq> []"
    by (auto simp: upload_file_def split: option.splits if_splits)
  let ?md = "if disable_metadata ctx then []
             else [(''path-type'', pt), (''original-mtime'', str_int (st_mtime s)),
                   (''file-hash'', file_hash s)]"
  let ?obj = "\<lparr> obj_size = st_size s, last_modified = clock w,
                obj_etag = [CHR 0x22] @ file_hash s @ [CHR 0x22], metadata = ?md \<rparr>"
  from assms s have r: "ctx' = ctx" "w' = put_object w k s ?md"
    by (auto simp: upload_file_def split: if_splits)
  have rec: "records ctx s ?obj"
    by (simp add: records_def)
  from r have "bucket w' = AList.update k ?obj (bucket w)"
    "stat_of w' = stat_of w" "accepts_metadata w' = accepts_metadata w"
    by (simp_all add: put_object_def)
  with r(1) s(1) rec show ?thesis by blast
qed

lemma apply_uploads_result:
  assumes "apply_uploads ctx w ups = Some (ctx', w')"
    and "accepts_metadata w \<or> disable_metadata ctx"
  shows "ctx' = ctx \<and> stat_of w' = stat_of w
     \<and> (distinct (map fst (bucket w)) \<longrightarrow> distinct (map fst (bucket w')))
     \<and> ((\<forall>(fp, k', sz, pt) \<in> set ups. k' \<noteq> k) \<longrightarrow>
           map_of (bucket w') k = map_of (bucket w) k)
     \<and> ((\<exists>(fp, k', sz, pt) \<in> set ups. k' = k) \<longrightarrow>
           (\<exists>fp sz pt s obj. (fp, k, sz, pt) \<in> set ups \<and> stat_of w fp = Some s
              \<and> records ctx s obj \<and> map_of (bucket w') k = Some obj))"
  using assms
proof (induction ups arbitrary: w)
  case Nil
  then show ?case by simp
next
  case (Cons item ups)
  obtain fp0 k0 sz0 pt0 where item: "item = (fp0, k0, sz0, pt0)" by (cases item)
  from Cons.prems(1) item obtain ctx1 w1 where
    up: "upload_file ctx w fp0 k0 pt0 = Some (ctx1, w1)"
    and rest: "apply_uploads ctx1 w1 ups = Some (ctx', w')"
    by (auto split: option.splits)
  from upload_file_result [OF up Cons.prems(2)] obtain s0 obj0 where
    c1: "ctx1 = ctx" and st1: "stat_of w1 = stat_of w"
    and ac1: "accepts_metadata w1 = accepts_metadata w"
    and s0: "stat_of w fp0 = Some s0" "records ctx s0 obj0"
    and b1: "bucket w1 = AList.update k0 obj0 (bucket w)" by blast
  from Cons.prems(2) ac1 have md1: "accepts_metadata w1 \<or> disable_metadata ctx" by simp
  note IH = Cons.IH [OF rest [unfolded c1] md1]
  from IH have e1: "ctx' = ctx" and e2: "stat_of w' = stat_of w1"
    and e3: "distinct (map fst (bucket w1)) \<longrightarrow> distinct (map fst (bucket w'))"
    and e4: "(\<forall>(fp, k', sz, pt) \<in> set ups. k' \<noteq> k) \<longrightarrow>
           map_of (bucket w') k = map_of (bucket w1) k"
    and e5: "(\<exists>(fp, k', sz, pt) \<in> set ups. k' = k) \<longrightarrow>
           (\<exists>fp sz pt s obj. (fp, k, sz, pt) \<in> set ups \<and> stat_of w1 fp = Some s
              \<and> records ctx s obj \<and> map_of (bucket w') k = Some obj)"
    by blast+
  have d: "distinct (map fst (bucket w)) \<longrightarrow> distinct (map fst (bucket w'))"
    using e3 b1 by (simp add: distinct_update)
  have un: "(\<forall>(fp, k', sz, pt) \<in> set (item # ups). k' \<noteq> k) \<longrightarrow>
           map_of (bucket w') k = map_of (bucket w) k"
    using e4 b1 item by (auto simp: update_conv')
  have ch: "(\<exists>(fp, k', sz, pt) \<in> set (item # ups). k' = k) \<longrightarrow>
           (\<exists>fp sz pt s obj. (fp, k, sz, pt) \<in> set (item # ups) \<and> stat_of w fp = Some s
              \<and> records ctx s obj \<and> map_of (bucket w') k = Some obj)"
  proof
    assume a: "\<exists>(fp, k', sz, pt) \<in> set (item # ups). k' = k"
    show "\<exists>fp sz pt s obj. (fp, k, sz, pt) \<in> set (item # ups) \<and> stat_of w fp = Some s
              \<and> records ctx s obj \<and> map_of (bucket w') k = Some obj"
    proof (cases "\<exists>(fp, k', sz, pt) \<in> set ups. k' = k")
      case True
      with e5 st1 obtain fp sz pt s obj where
        "(fp, k, sz, pt) \<in> set ups" "stat_of w fp = Some s" "records ctx s obj"
        "map_of (bucket w') k = Some obj" by auto
      then show ?thesis by (intro exI [of _ fp] exI [of _ sz] exI [of _ pt]) auto
    next
      case False
      with a item have k: "k0 = k" by auto
      from False have "\<forall>(fp, k', sz, pt) \<in> set ups. k' \<noteq> k" by auto
      with e4 have "map_of (bucket w') k = map_of (bucket w1) k" by simp
      with b1 k have "map_of (bucket w') k = Some obj0" by (simp add: update_conv')
      with s0 item k show ?thesis
        by (intro exI [of _ fp0] exI [of _ sz0] exI [of _ pt0]) auto
    qed
  qed
  have st: "stat_of w' = stat_of w" using e2 st1 by simp
  show ?case by (intro conjI e1 st d un ch)
qed

lemma upload_step_cases:
  assumes "upload_step ctx st s3 inc (u0, s0) (fp, bp, pt) = Inr (u1, s1)"
  shows "\<exists>rk s k. get_relative_s3_key fp bp pt = Inr rk \<and> get_s3_key ctx fp bp pt = Inr k
           \<and> st fp = Some s \<and> \<not> has_nul fp
           \<and> ((u1 = u0 @ [(fp, k, st_size s, pt)] \<and> s1 = s0)
              \<or> (u1 = u0 \<and> s1 = s0 @ [(fp, k, st_size s)]
                  \<and> (\<exists>info. map_of s3 rk = Some info
                        \<and> \<not> files_are_different (file_record st fp) info)))"
proof -
  from assms obtain k where k: "get_s3_key ctx fp bp pt = Inr k"
    by (auto simp: upload_step_def split: sum.splits)
  from assms k obtain rk where rk: "get_relative_s3_key fp bp pt = Inr rk"
    by (auto simp: upload_step_def split: sum.splits)
  from assms k rk have nn: "\<not> has_nul fp"
    by (auto simp: upload_step_def get_file_info_def split: if_splits)
  then have li: "get_file_info st fp = Inr (file_record st fp)"
    by (rule get_file_info_no_nul)
  from assms k rk li obtain sz where sz: "lookup_size (file_record st fp) = Inr sz"
    by (auto simp: upload_step_def split: sum.splits option.splits if_splits)
  then obtain s where s: "st fp = Some s" "sz = st_size s"
    by (cases "st fp") (auto simp: file_record_def)
  from assms k rk sz s li nn show ?thesis
    by (auto simp: upload_step_def split: option.splits if_splits)
qed

lemma push_loop_invariants:
  assumes "for_each (upload_step ctx st s3 inc) files (u0, s0) = Inr (u, s)"
  shows "set u0 \<subseteq> set u
     \<and> (\<forall>item \<in> set u. item \<in> set u0
           \<or> (\<exists>fp bp pt k sz. (fp, bp, pt) \<in> set files \<and> item = (fp, k, sz, pt)
                 \<and> get_s3_key ctx fp bp pt = Inr k))
     \<and> (\<forall>(fp, bp, pt) \<in> set files.
           \<exists>rk s k. get_relative_s3_key fp bp pt = Inr rk \<and> get_s3_key ctx fp bp pt = Inr k
             \<and> st fp = Some s \<and> \<not> has_nul fp
             \<and> ((\<exists>sz. (fp, k, sz, pt) \<in> set u)
                \<or> (\<exists>info. map_of s3 rk = Some info
                      \<and> \<not> files_are_different (file_record st fp) info)))"
  using assms
proof (induction files arbitrary: u0 s0)
  case Nil
  then show ?case by simp
next
  case (Cons f files)
  obtain fp bp pt where f: "f = (fp, bp, pt)" by (cases f)
  from Cons.prems f obtain u1 s1 where
    step: "upload_step ctx st s3 inc (u0, s0) (fp, bp, pt) = Inr (u1, s1)"
    and rest: "for_each (upload_step ctx st s3 inc) files (u1, s1) = Inr (u, s)"
    by (auto split: sum.splits)
  from upload_step_cases [OF step] obtain rk s' k where
    c: "get_relative_s3_key fp bp pt = Inr rk" "get_s3_key ctx fp bp pt = Inr k"
       "st fp = Some s'" "\<not> has_nul fp"
       "(u1 = u0 @ [(fp, k, st_size s', pt)] \<and> s1 = s0)
        \<or> (u1 = u0 \<and> s1 = s0 @ [(fp, k, st_size s')]
            \<and> (\<exists>info. map_of s3 rk = Some info
                  \<and> \<not> files_are_different (file_record st fp) info))"
    by blast
  from Cons.IH [OF rest] have
    i1: "set u1 \<subseteq> set u"
    and i2: "\<forall>item \<in> set u. item \<in> set u1
           \<or> (\<exists>fp bp pt k sz. (fp, bp, pt) \<in> set files \<and> item = (fp, k, sz, pt)
                 \<and> get_s3_key ctx fp bp pt = Inr k)"
    and i3: "\<forall>(fp, bp, pt) \<in> set files.
           \<exists>rk s k. get_relative_s3_key fp bp pt = Inr rk \<and> get_s3_key ctx fp bp pt = Inr k
             \<and> st fp = Some s \<and> \<not> has_nul fp
             \<and> ((\<exists>sz. (fp, k, sz, pt) \<in> set u)
                \<or> (\<exists>info. map_of s3 rk = Some info
                      \<and> \<not> files_are_different (file_record st fp) info))"
    by blast+
  from c(5) have sub: "set u0 \<subseteq> set u1" by auto
  have g1: "set u0 \<subseteq> set (u)" using sub i1 by blast
  have g2: "\<forall>item \<in> set u. item \<in> set u0
           \<or> (\<exists>fp bp pt k sz. (fp, bp, pt) \<in> set (f # files) \<and> item = (fp, k, sz, pt)
                 \<and> get_s3_key ctx fp bp pt = Inr k)"
  proof
    fix item assume "item \<in> set u"
    with i2 consider "item \<in> set u1"
      | "\<exists>fp bp pt k sz. (fp, bp, pt) \<in> set files \<and> item = (fp, k, sz, pt)
                 \<and> get_s3_key ctx fp bp pt = Inr k" by blast
    then show "item \<in> set u0
           \<or> (\<exists>fp bp pt k sz. (fp, bp, pt) \<in> set (f # files) \<and> item = (fp, k, sz, pt)
                 \<and> get_s3_key ctx fp bp pt = Inr k)"
    proof cases
      case 1
      with c(5) have "item \<in> set u0 \<or> item = (fp, k, st_size s', pt)" by auto
      with c(2) f show ?thesis by auto
    next
      case 2
      then show ?thesis by auto
    qed
  qed
  have g3: "\<forall>(fp, bp, pt) \<in> set (f # files).
           \<exists>rk s k. get_relative_s3_key fp bp pt = Inr rk \<and> get_s3_key ctx fp bp pt = Inr k
             \<and> st fp = Some s \<and> \<not> has_nul fp
             \<and> ((\<exists>sz. (fp, k, sz, pt) \<in> set u)
                \<or> (\<exists>info. map_of s3 rk = Some info
                      \<and> \<not> files_are_different (file_record st fp) info))"
  proof -
    have here: "\<exists>rk s k. get_relative_s3_key fp bp pt = Inr rk \<and> get_s3_key ctx fp bp pt = Inr k
             \<and> st fp = Some s \<and> \<not> has_nul fp
             \<and> ((\<exists>sz. (fp, k, sz, pt) \<in> set u)
                \<or> (\<exists>info. map_of s3 rk = Some info
                      \<and> \<not> files_are_different (file_record st fp) info))"
    proof (cases "u1 = u0 @ [(fp, k, st_size s', pt)]")
      case True
      with i1 have "(fp, k, st_size s', pt) \<in> set u" by auto
      with c(1,2,3,4) show ?thesis by blast
    next
      case False
      with c(5) have "\<exists>info. map_of s3 rk = Some info
                  \<and> \<not> files_are_different (file_record st fp) info" by blast
      with c(1,2,3,4) show ?thesis by blast
    qed
    with i3 f show ?thesis by simp
  qed
  show ?case by (intro conjI g1 g2 g3)
qed

lemma push_loop_all_skipped:
  assumes "\<forall>f \<in> set files. \<forall>u s.
     \<exists>k sz. upload_step ctx st s3 inc (u, s) f = Inr (u, s @ [(fst f, k, sz)])"
  shows "\<exists>s'. for_each (upload_step ctx st s3 inc) files (u, s) = Inr (u, s @ s')
     \<and> map fst s' = map fst files"
  using assms
proof (induction files arbitrary: s)
  case Nil
  show ?case by simp
next
  case (Cons f files)
  from Cons.prems obtain k sz where
    step: "upload_step ctx st s3 inc (u, s) f = Inr (u, s @ [(fst f, k, sz)])"
    by fastforce
  from Cons.prems have "\<forall>f \<in> set files. \<forall>u s.
     \<exists>k sz. upload_step ctx st s3 inc (u, s) f = Inr (u, s @ [(fst f, k, sz)])"
    by simp
  from Cons.IH [OF this, of "s @ [(fst f, k, sz)]"] obtain s' where
    "for_each (upload_step ctx st s3 inc) files (u, s @ [(fst f, k, sz)])
       = Inr (u, (s @ [(fst f, k, sz)]) @ s')" "map fst s' = map fst files" by blast
  with step show ?case
    by (intro exI [of _ "(fst f, k, sz) # s'"]) simp
qed

section \<open>Pattern classifier: the file-level test\<close>

text \<open>
  C7. \<open>includeFile\<close> equals the reference definition for every path under the root:
  the result is false when the path relative to the root (with forward slashes) or
  the bare file name matches an exclude glob, also when an include glob matches as
  well, and true otherwise, whether or not an include glob matches.
\<close>

theorem should_include_file_refines_spec:
  "relative_to file_path base_path = Some rel \<Longrightarrow>
   should_include_file fm ctx file_path base_path =
     Inr (includeFile_spec fm (exclude_patterns ctx) (include_patterns ctx)
            (replace_backslash (path_str rel)) (name_of file_path))"
  by (simp add: should_include_file_def includeFile_spec_def list_ex_iff)

theorem should_include_file_refines_spec_witness:
  "relative_to (Path ''/'' [''r'', ''a.ini.lock'']) (Path ''/'' [''r''])
     = Some (Path [] [''a.ini.lock''])
   \<and> should_include_file fnmatch (example_ctx\<lparr>include_patterns := [''*.ini*'']\<rparr>)
       (Path ''/'' [''r'', ''a.ini.lock'']) (Path ''/'' [''r''])
     = Inr False"
proof -
  have h: "relative_to (Path ''/'' [''r'', ''a.ini.lock'']) (Path ''/'' [''r''])
     = Some (Path [] [''a.ini.lock''])"
    by (simp add: relative_to_def)
  have m: "fnmatch ''a.ini.lock'' ''*.lock''"
    by (simp add: fnmatch_def)
  show ?thesis
    using h m should_include_file_refines_spec
      [OF h, of fnmatch "example_ctx\<lparr>include_patterns := [''*.ini*'']\<rparr>"]
    by (simp add: includeFile_spec_def example_ctx_def path_str_def replace_backslash_def
        name_of_def)
qed

section \<open>Identity comparator\<close>

text \<open>
  C5. The identity comparator equals the reference definition for every local
  record and remote record: different when either does not exist; otherwise, when
  both carry a non-empty hash, different iff the hashes differ, whatever the sizes
  and times; otherwise different iff the sizes differ.
\<close>

theorem files_are_different_refines_spec:
  "files_are_different local_info remote = areDifferent_spec local_info remote"
  by (cases local_info; cases "s3_hash remote") (auto simp: files_are_different_def)

theorem files_are_different_refines_spec_witness:
  "files_are_different (Found 10 5 ''abc'')
     \<lparr> s3_size = 99, s3_mtime = 7, s3_etag = [], s3_exists = True, s3_key = ''k'',
       s3_hash = Some ''abc'' \<rparr> = False
   \<and> files_are_different (Found 10 5 [])
     \<lparr> s3_size = 10, s3_mtime = 7, s3_etag = [], s3_exists = True, s3_key = ''k'',
       s3_hash = Some ''abc'' \<rparr> = False
   \<and> files_are_different Missing
     \<lparr> s3_size = 10, s3_mtime = 7, s3_etag = [], s3_exists = True, s3_key = ''k'',
       s3_hash = None \<rparr> = True"
  using files_are_different_refines_spec [of "Found 10 5 ''abc''"
      "\<lparr> s3_size = 99, s3_mtime = 7, s3_etag = [], s3_exists = True, s3_key = ''k'',
         s3_hash = Some ''abc'' \<rparr>"]
    files_are_different_refines_spec [of "Found 10 5 []"
      "\<lparr> s3_size = 10, s3_mtime = 7, s3_etag = [], s3_exists = True, s3_key = ''k'',
         s3_hash = Some ''abc'' \<rparr>"]
    files_are_different_refines_spec [of Missing
      "\<lparr> s3_size = 10, s3_mtime = 7, s3_etag = [], s3_exists = True, s3_key = ''k'',
         s3_hash = None \<rparr>"]
  by simp

section \<open>Mode-level results\<close>

text \<open>
  C3 (as the code has it). A push whose filtered local listing is empty, and a pull
  whose remote listing is empty, make no executor call and report a warning, and the
  mode-level call returns \<open>False\<close>, the failure outcome.
\<close>

theorem empty_listing_returns_failure:
  "(get_local_files fm ctx w = Inr ([], lg) \<longrightarrow>
      upload_to_s3 fm ctx w run dry_run incremental cleanup
        = Inr \<lparr> ok = False, logged = lg @ [(WARNING, ''No files found to upload'')], ops = [] \<rparr>)
   \<and> (list_s3_objects ctx (bucket w) = [] \<longrightarrow>
      download_from_s3 fm ctx w run dry_run incremental cleanup
        = \<lparr> ok = False,
            logged = [(WARNING, ''No objects found in S3 with prefix: '' @ prefix ctx)],
            ops = [] \<rparr>)"
  by (simp add: upload_to_s3_def download_from_s3_def)

theorem empty_listing_returns_failure_witness:
  "get_local_files fnmatch example_ctx empty_world = Inr ([], [])
   \<and> list_s3_objects example_ctx (bucket empty_world) = []
   \<and> upload_to_s3 fnmatch example_ctx empty_world run_ok True True True
       = Inr \<lparr> ok = False, logged = [(WARNING, ''No files found to upload'')], ops = [] \<rparr>
   \<and> download_from_s3 fnmatch example_ctx empty_world run_ok True True True
       = \<lparr> ok = False, logged = [(WARNING, ''No objects found in S3 with prefix: zen/'')],
           ops = [] \<rparr>"
proof -
  have a: "get_local_files fnmatch example_ctx empty_world = Inr ([], [])"
    by code_simp
  have b: "list_s3_objects example_ctx (bucket empty_world) = []"
    by code_simp
  have c: "prefix example_ctx = ''zen/''"
    by (simp add: example_ctx_def)
  show ?thesis
    using a b c empty_listing_returns_failure
      [of fnmatch example_ctx empty_world "[]" run_ok True True True]
    by simp
qed

text \<open>The claim as the specification states it, that both calls return success,
  fails on a world whose one local file is excluded and whose bucket is empty.\<close>

theorem empty_listing_counterexample:
  "get_local_files fnmatch example_ctx empty_world = Inr ([], [])
   \<and> upload_to_s3 fnmatch example_ctx empty_world run_ok False True False
       = Inr \<lparr> ok = False, logged = [(WARNING, ''No files found to upload'')], ops = [] \<rparr>
   \<and> list_s3_objects example_ctx (bucket empty_world) = []
   \<and> download_from_s3 fnmatch example_ctx empty_world run_ok False True False
       = \<lparr> ok = False, logged = [(WARNING, ''No objects found in S3 with prefix: zen/'')],
           ops = [] \<rparr>"
  by code_simp

text \<open>
  C8. The \<open>cleanup\<close> parameter of bidirectional mode is inert: the call with
  \<open>cleanup\<close> set equals the call without, and no executor call of either is a
  deletion, remote or local. This holds in whatever order the sets of keys are
  iterated.
\<close>

theorem sync_bidirectional_cleanup_inert:
  "sync_bidirectional it fm ctx w run dry_run True
     = sync_bidirectional it fm ctx w run dry_run False
   \<and> (sync_bidirectional it fm ctx w run dry_run cleanup = Inr out \<longrightarrow>
        \<not> list_ex is_deletion (ops out))"
proof -
  have up: "\<not> list_ex is_deletion (map snd (map upload_call xs))" for xs
    by (induction xs) (auto simp: upload_call_def)
  have down: "\<not> list_ex is_deletion (map snd (map download_call xs))" for xs
    by (induction xs) (auto simp: download_call_def)
  have pf_up: "process_files a d run (map upload_call xs) = (b, lg, os)
      \<Longrightarrow> \<not> list_ex is_deletion os" for a d xs b lg os
    using up [of xs] by (auto simp: process_files_def split: if_splits)
  have pf_down: "process_files a d run (map download_call xs) = (b, lg, os)
      \<Longrightarrow> \<not> list_ex is_deletion os" for a d xs b lg os
    using down [of xs] by (auto simp: process_files_def split: if_splits)
  show ?thesis
    by (auto simp: sync_bidirectional_def Let_def list_ex_iff
        split: sum.splits prod.splits if_splits dest!: pf_up pf_down)
qed

theorem sync_bidirectional_cleanup_inert_witness:
  "sync_bidirectional remdups fnmatch example_ctx example_world run_ok False True
     = sync_bidirectional remdups fnmatch example_ctx example_world run_ok False False
   \<and> sync_bidirectional remdups fnmatch example_ctx example_world run_ok False True
     = Inr \<lparr> ok = True, logged = [],
             ops = [DownloadFile ''zen/roaming/prefs.js'' (Path ''/'' [''r'', ''prefs.js'']),
                    DownloadFile ''zen/roaming/cache2/data.db''
                      (Path ''/'' [''r'', ''cache2'', ''data.db''])] \<rparr>
   \<and> \<not> list_ex is_deletion
         [DownloadFile ''zen/roaming/prefs.js'' (Path ''/'' [''r'', ''prefs.js'']),
          DownloadFile ''zen/roaming/cache2/data.db''
            (Path ''/'' [''r'', ''cache2'', ''data.db''])]"
proof -
  have e: "sync_bidirectional remdups fnmatch example_ctx example_world run_ok False True
     = Inr \<lparr> ok = True, logged = [],
             ops = [DownloadFile ''zen/roaming/prefs.js'' (Path ''/'' [''r'', ''prefs.js'']),
                    DownloadFile ''zen/roaming/cache2/data.db''
                      (Path ''/'' [''r'', ''cache2'', ''data.db''])] \<rparr>"
    by code_simp
  show ?thesis
    using e sync_bidirectional_cleanup_inert
      [of remdups fnmatch example_ctx example_world run_ok False True _]
    by simp
qed

text \<open>
  A pull whose listing holds a key with a NUL character: the local path cannot be
  asked of the file system, the analysis raises, and the call reports the error and
  returns \<open>False\<close>.
\<close>

lemma download_nul_key_example:
  "download_from_s3 fnmatch example_ctx nul_world run_ok False True False
     = \<lparr> ok = False,
         logged = [(ERROR, ''Error during download: embedded null byte'')],
         ops = [] \<rparr>"
  by code_simp

section \<open>Bidirectional analysis\<close>

text \<open>
  Where every local record exists and every local path lies under its root, the
  bidirectional analysis returns, in whatever order the sets of keys are iterated, and
  these are its lists. The upload list holds the item of each key of both sides that
  is judged different with a local time strictly greater than the remote time, then
  the item of each key that only the local side has. The download list holds the item
  of each key of both sides that is judged different otherwise (equal times included),
  then the item of each key that only the remote side has and that has a download
  path. The skip list holds the item of each key of both sides that is judged
  identical. Each loop visits each of its keys once.
\<close>

lemma conflict_resolution_of_existing_records:
  assumes "is_set_order it"
    and "\<forall>k e. map_of local_lookup k = Some e \<longrightarrow> entry_info e \<noteq> Missing"
    and "\<forall>k e. map_of local_lookup k = Some e \<longrightarrow>
           relative_to (entry_path e) (base_of ctx (entry_path_type e)) \<noteq> None"
  shows "analyze_bidirectional_sync it ctx local_lookup s3_objects =
       Inr (map (both_upload_item local_lookup s3_objects)
              (filter (\<lambda>k. decision_for local_lookup s3_objects k = DoUpload)
                 (keys_both it local_lookup s3_objects))
            @ map (local_only_item ctx local_lookup)
                (keys_local_only it local_lookup s3_objects),
            map (both_download_item local_lookup s3_objects)
              (filter (\<lambda>k. decision_for local_lookup s3_objects k = DoDownload)
                 (keys_both it local_lookup s3_objects))
            @ map (remote_only_item ctx s3_objects)
                (filter (\<lambda>k. get_download_path ctx k \<noteq> None)
                   (keys_remote_only it local_lookup s3_objects)),
            map (both_skip_item local_lookup)
              (filter (\<lambda>k. decision_for local_lookup s3_objects k = DoSkip)
                 (keys_both it local_lookup s3_objects)))
     \<and> (\<forall>k. k \<in> set (keys_both it local_lookup s3_objects)
            \<longleftrightarrow> k \<in> set (map fst local_lookup) \<and> k \<in> set (map fst s3_objects))
     \<and> (\<forall>k. k \<in> set (keys_local_only it local_lookup s3_objects)
            \<longleftrightarrow> k \<in> set (map fst local_lookup) \<and> k \<notin> set (map fst s3_objects))
     \<and> (\<forall>k. k \<in> set (keys_remote_only it local_lookup s3_objects)
            \<longleftrightarrow> k \<in> set (map fst s3_objects) \<and> k \<notin> set (map fst local_lookup))
     \<and> distinct (keys_both it local_lookup s3_objects)
     \<and> distinct (keys_local_only it local_lookup s3_objects)
     \<and> distinct (keys_remote_only it local_lookup s3_objects)"
  using analyze_bidirectional_sync_result [OF assms, of s3_objects]
    keys_both_mem [OF assms(1), of _ local_lookup s3_objects]
    keys_local_only_mem [OF assms(1), of _ local_lookup s3_objects]
    keys_remote_only_mem [OF assms(1), of _ local_lookup s3_objects]
    keys_distinct [OF assms(1), of local_lookup s3_objects]
  by simp

lemma conflict_resolution_example:
  "analyze_bidirectional_sync remdups example_ctx example_lookup example_listing =
     Inr ([(Path ''/'' [''r'', ''b''], ''zen/roaming/b'', 20, ''roaming'')],
          [(Path ''/'' [''r'', ''a''], ''zen/roaming/a'', 11, ''roaming/a'')],
          [(''roaming/c'', None, 30)])
   \<and> decision_for example_lookup example_listing ''roaming/a'' = DoDownload
   \<and> decision_for example_lookup example_listing ''roaming/b'' = DoUpload
   \<and> decision_for example_lookup example_listing ''roaming/c'' = DoSkip"
  by code_simp

text \<open>
  C6. The claim fails on the code for a key of both sides whose local record is the
  record of a vanished file, the one without size and time. The comparator judges the
  two records different; no local time is strictly greater than the remote time, so
  conflict resolution as specified places the key in the download list. The analysis
  reads the time of the local record all the same: it raises the key error of
  \<open>mtime\<close>, in whatever order the keys are iterated, no list is returned for any
  key, and the bidirectional call passes the error on. The pull analysis tests
  \<open>exists\<close> before it reads a local record; this loop does not.
\<close>

theorem missing_record_aborts_conflict_resolution:
  assumes "is_set_order it"
    and "map_of local_lookup k = Some e" and "map_of s3_objects k = Some r"
    and "entry_info e = Missing"
  shows "files_are_different (entry_info e) r
     \<and> decision_for local_lookup s3_objects k = DoDownload
     \<and> analyze_bidirectional_sync it ctx local_lookup s3_objects = Inl (KeyError ''mtime'')
     \<and> (get_local_files fm ctx w = Inr (files, lg)
          \<and> for_each (local_lookup_step (stat_of w)) files [] = Inr local_lookup
          \<and> list_s3_objects ctx (bucket w) = s3_objects \<longrightarrow>
        sync_bidirectional it fm ctx w run dry_run cleanup = Inl (KeyError ''mtime''))"
proof -
  from assms(3) have kin: "k \<in> set (map fst s3_objects)" by (rule lookup_in_keys)
  have d: "files_are_different (entry_info e) r"
    using assms(4) by (simp add: files_are_different_def)
  have dec: "decision_for local_lookup s3_objects k = DoDownload"
    using assms(2,3,4) d by (simp add: decision_for_def resolve_def)
  have an: "analyze_bidirectional_sync it ctx local_lookup s3_objects = Inl (KeyError ''mtime'')"
    using assms(1,2) kin assms(4) by (rule analyze_bidirectional_sync_missing_both)
  have md: "get_local_files fm ctx w = Inr (files, lg)
          \<and> for_each (local_lookup_step (stat_of w)) files [] = Inr local_lookup
          \<and> list_s3_objects ctx (bucket w) = s3_objects \<longrightarrow>
        sync_bidirectional it fm ctx w run dry_run cleanup = Inl (KeyError ''mtime'')"
    using an by (auto simp: sync_bidirectional_def)
  show ?thesis by (intro conjI d dec an md)
qed

theorem missing_record_aborts_conflict_resolution_witness:
  "get_local_files fnmatch example_ctx vanished_world
     = Inr ([(Path ''/'' [''r'', ''prefs.js''], Path ''/'' [''r''], ''roaming'')], [])
   \<and> for_each (local_lookup_step (stat_of vanished_world))
        [(Path ''/'' [''r'', ''prefs.js''], Path ''/'' [''r''], ''roaming'')] []
     = Inr [(''roaming/prefs.js'',
              \<lparr> entry_path = Path ''/'' [''r'', ''prefs.js''], entry_info = Missing,
                entry_path_type = ''roaming'' \<rparr>)]
   \<and> map_of (list_s3_objects example_ctx (bucket vanished_world)) ''roaming/prefs.js''
     = Some \<lparr> s3_size = 90, s3_mtime = 50, s3_etag = ''e1'', s3_exists = True,
              s3_key = ''zen/roaming/prefs.js'', s3_hash = Some ''h0'' \<rparr>
   \<and> files_are_different Missing
        \<lparr> s3_size = 90, s3_mtime = 50, s3_etag = ''e1'', s3_exists = True,
          s3_key = ''zen/roaming/prefs.js'', s3_hash = Some ''h0'' \<rparr>
   \<and> decision_for
        [(''roaming/prefs.js'',
           \<lparr> entry_path = Path ''/'' [''r'', ''prefs.js''], entry_info = Missing,
             entry_path_type = ''roaming'' \<rparr>)]
        (list_s3_objects example_ctx (bucket vanished_world)) ''roaming/prefs.js'' = DoDownload
   \<and> analyze_bidirectional_sync remdups example_ctx
        [(''roaming/prefs.js'',
           \<lparr> entry_path = Path ''/'' [''r'', ''prefs.js''], entry_info = Missing,
             entry_path_type = ''roaming'' \<rparr>)]
        (list_s3_objects example_ctx (bucket vanished_world)) = Inl (KeyError ''mtime'')
   \<and> sync_bidirectional remdups fnmatch example_ctx vanished_world run_ok False False
     = Inl (KeyError ''mtime'')"
proof -
  let ?files = "[(Path ''/'' [''r'', ''prefs.js''], Path ''/'' [''r''], ''roaming'')]"
  let ?e = "\<lparr> entry_path = Path ''/'' [''r'', ''prefs.js''], entry_info = Missing,
              entry_path_type = ''roaming'' \<rparr>"
  let ?r = "\<lparr> s3_size = 90, s3_mtime = 50, s3_etag = ''e1'', s3_exists = True,
              s3_key = ''zen/roaming/prefs.js'', s3_hash = Some ''h0'' \<rparr>"
  have g: "get_local_files fnmatch example_ctx vanished_world = Inr (?files, [])"
    by code_simp
  have l: "for_each (local_lookup_step (stat_of vanished_world)) ?files []
      = Inr [(''roaming/prefs.js'', ?e)]"
    by code_simp
  have m: "map_of (list_s3_objects example_ctx (bucket vanished_world)) ''roaming/prefs.js''
      = Some ?r"
    by code_simp
  have h2: "map_of [(''roaming/prefs.js'', ?e)] ''roaming/prefs.js'' = Some ?e"
    by simp
  have h4: "entry_info ?e = Missing"
    by simp
  from missing_record_aborts_conflict_resolution
    [OF is_set_order_remdups h2 m h4, of example_ctx fnmatch vanished_world ?files "[]"
       run_ok False False] g l
  show ?thesis using m by simp
qed

section \<open>Vanished files\<close>

text \<open>
  C10. The analyzers return only when every scanned file still exists when its record
  is built. The record of a vanished file is the one without size and time: reading
  either raises a key error, and the record enters the local lookup like any other.
  For files under their roots the push analysis returns when all exist and otherwise
  raises the key error of \<open>size\<close>. The bidirectional analysis, in whatever order
  its sets are iterated, raises the key error of \<open>mtime\<close> when a key of both sides
  has such a record; with the local paths under their roots it raises the key error of
  \<open>size\<close> when no key of both sides but a key of the local side alone has such a
  record, and it returns when every record exists. The push and the bidirectional call
  pass the error on: no per-file recovery applies to it.
\<close>

theorem analyzers_total_only_if_files_exist:
  "(st fp = None \<and> \<not> has_nul fp \<longrightarrow> get_file_info st fp = Inr Missing)
   \<and> lookup_size Missing = Inl (KeyError ''size'')
   \<and> lookup_mtime Missing = Inl (KeyError ''mtime'')
   \<and> (st fp = None \<and> \<not> has_nul fp \<and> get_relative_s3_key fp bp pt = Inr rk \<longrightarrow>
        local_lookup_step st lookup0 (fp, bp, pt)
          = Inr (AList.update rk
                   \<lparr> entry_path = fp, entry_info = Missing, entry_path_type = pt \<rparr> lookup0))
   \<and> ((\<forall>(fp, bp, pt) \<in> set files. relative_to fp bp \<noteq> None \<and> \<not> has_nul fp) \<longrightarrow>
        (if \<forall>(fp, bp, pt) \<in> set files. st fp \<noteq> None
         then \<exists>r. analyze_upload_files ctx st files s3_objects incremental cleanup = Inr r
         else analyze_upload_files ctx st files s3_objects incremental cleanup
                = Inl (KeyError ''size'')))
   \<and> (is_set_order it
        \<and> (\<exists>k e. map_of local_lookup k = Some e \<and> k \<in> set (map fst s3_objects)
              \<and> entry_info e = Missing) \<longrightarrow>
        analyze_bidirectional_sync it ctx local_lookup s3_objects = Inl (KeyError ''mtime''))
   \<and> (is_set_order it
        \<and> (\<forall>k e. map_of local_lookup k = Some e \<longrightarrow>
              relative_to (entry_path e) (base_of ctx (entry_path_type e)) \<noteq> None)
        \<and> (\<forall>k e. map_of local_lookup k = Some e \<and> k \<in> set (map fst s3_objects) \<longrightarrow>
              entry_info e \<noteq> Missing)
        \<and> (\<exists>k e. map_of local_lookup k = Some e \<and> k \<notin> set (map fst s3_objects)
              \<and> entry_info e = Missing) \<longrightarrow>
        analyze_bidirectional_sync it ctx local_lookup s3_objects = Inl (KeyError ''size''))
   \<and> (is_set_order it
        \<and> (\<forall>k e. map_of local_lookup k = Some e \<longrightarrow>
              relative_to (entry_path e) (base_of ctx (entry_path_type e)) \<noteq> None)
        \<and> (\<forall>k e. map_of local_lookup k = Some e \<longrightarrow> entry_info e \<noteq> Missing) \<longrightarrow>
        (\<exists>r. analyze_bidirectional_sync it ctx local_lookup s3_objects = Inr r))
   \<and> (get_local_files fm ctx w = Inr (files, lg) \<and> files \<noteq> []
        \<and> analyze_upload_files ctx (stat_of w) files
             (if incremental \<or> cleanup then list_s3_objects ctx (bucket w) else [])
             incremental cleanup = Inl err \<longrightarrow>
        upload_to_s3 fm ctx w run dry_run incremental cleanup = Inl err)
   \<and> (get_local_files fm ctx w = Inr (files, lg)
        \<and> for_each (local_lookup_step (stat_of w)) files [] = Inr local_lookup
        \<and> analyze_bidirectional_sync it ctx local_lookup (list_s3_objects ctx (bucket w))
             = Inl err \<longrightarrow>
        sync_bidirectional it fm ctx w run dry_run cleanup = Inl err)"
proof -
  have c1: "st fp = None \<and> \<not> has_nul fp \<longrightarrow> get_file_info st fp = Inr Missing"
    by (simp add: get_file_info_def file_record_def)
  have c2: "lookup_size Missing = Inl (KeyError ''size'')" by simp
  have c3: "lookup_mtime Missing = Inl (KeyError ''mtime'')" by simp
  have c4: "st fp = None \<and> \<not> has_nul fp \<and> get_relative_s3_key fp bp pt = Inr rk \<longrightarrow>
        local_lookup_step st lookup0 (fp, bp, pt)
          = Inr (AList.update rk
                   \<lparr> entry_path = fp, entry_info = Missing, entry_path_type = pt \<rparr> lookup0)"
    by (simp add: local_lookup_step_def get_file_info_def file_record_def)
  have c5: "(\<forall>(fp, bp, pt) \<in> set files. relative_to fp bp \<noteq> None \<and> \<not> has_nul fp) \<longrightarrow>
        (if \<forall>(fp, bp, pt) \<in> set files. st fp \<noteq> None
         then \<exists>r. analyze_upload_files ctx st files s3_objects incremental cleanup = Inr r
         else analyze_upload_files ctx st files s3_objects incremental cleanup
                = Inl (KeyError ''size''))"
  proof
    assume a: "\<forall>(fp, bp, pt) \<in> set files. relative_to fp bp \<noteq> None \<and> \<not> has_nul fp"
    then have ub: "\<forall>(fp, bp, pt) \<in> set files. relative_to fp bp \<noteq> None" by auto
    from relative_keys_total [OF ub] obtain ks where ks: "relative_keys files = Inr ks" by blast
    from push_loop_total [OF a, of st ctx s3_objects incremental "([], [])"] ks
    show "if \<forall>(fp, bp, pt) \<in> set files. st fp \<noteq> None
         then \<exists>r. analyze_upload_files ctx st files s3_objects incremental cleanup = Inr r
         else analyze_upload_files ctx st files s3_objects incremental cleanup
                = Inl (KeyError ''size'')"
      by (auto simp: analyze_upload_files_def split: if_splits)
  qed
  have c6: "is_set_order it
        \<and> (\<exists>k e. map_of local_lookup k = Some e \<and> k \<in> set (map fst s3_objects)
              \<and> entry_info e = Missing) \<longrightarrow>
        analyze_bidirectional_sync it ctx local_lookup s3_objects = Inl (KeyError ''mtime'')"
    using analyze_bidirectional_sync_missing_both [of it local_lookup _ _ s3_objects ctx]
    by blast
  have c7: "is_set_order it
        \<and> (\<forall>k e. map_of local_lookup k = Some e \<longrightarrow>
              relative_to (entry_path e) (base_of ctx (entry_path_type e)) \<noteq> None)
        \<and> (\<forall>k e. map_of local_lookup k = Some e \<and> k \<in> set (map fst s3_objects) \<longrightarrow>
              entry_info e \<noteq> Missing)
        \<and> (\<exists>k e. map_of local_lookup k = Some e \<and> k \<notin> set (map fst s3_objects)
              \<and> entry_info e = Missing) \<longrightarrow>
        analyze_bidirectional_sync it ctx local_lookup s3_objects = Inl (KeyError ''size'')"
  proof
    assume a: "is_set_order it
        \<and> (\<forall>k e. map_of local_lookup k = Some e \<longrightarrow>
              relative_to (entry_path e) (base_of ctx (entry_path_type e)) \<noteq> None)
        \<and> (\<forall>k e. map_of local_lookup k = Some e \<and> k \<in> set (map fst s3_objects) \<longrightarrow>
              entry_info e \<noteq> Missing)
        \<and> (\<exists>k e. map_of local_lookup k = Some e \<and> k \<notin> set (map fst s3_objects)
              \<and> entry_info e = Missing)"
    then have so: "is_set_order it"
      and ub: "\<forall>k e. map_of local_lookup k = Some e \<longrightarrow>
              relative_to (entry_path e) (base_of ctx (entry_path_type e)) \<noteq> None"
      and bo: "\<forall>k e. map_of local_lookup k = Some e \<and> k \<in> set (map fst s3_objects) \<longrightarrow>
              entry_info e \<noteq> Missing"
      and ex: "\<exists>k e. map_of local_lookup k = Some e \<and> k \<notin> set (map fst s3_objects)
              \<and> entry_info e = Missing" by blast+
    from ex obtain k e where k: "map_of local_lookup k = Some e"
      "k \<notin> set (map fst s3_objects)" "entry_info e = Missing" by blast
    from analyze_bidirectional_sync_missing_local_only [OF so ub bo k]
    show "analyze_bidirectional_sync it ctx local_lookup s3_objects = Inl (KeyError ''size'')" .
  qed
  have c8: "is_set_order it
        \<and> (\<forall>k e. map_of local_lookup k = Some e \<longrightarrow>
              relative_to (entry_path e) (base_of ctx (entry_path_type e)) \<noteq> None)
        \<and> (\<forall>k e. map_of local_lookup k = Some e \<longrightarrow> entry_info e \<noteq> Missing) \<longrightarrow>
        (\<exists>r. analyze_bidirectional_sync it ctx local_lookup s3_objects = Inr r)"
  proof
    assume a: "is_set_order it
        \<and> (\<forall>k e. map_of local_lookup k = Some e \<longrightarrow>
              relative_to (entry_path e) (base_of ctx (entry_path_type e)) \<noteq> None)
        \<and> (\<forall>k e. map_of local_lookup k = Some e \<longrightarrow> entry_info e \<noteq> Missing)"
    then have so: "is_set_order it"
      and ub: "\<forall>k e. map_of local_lookup k = Some e \<longrightarrow>
              relative_to (entry_path e) (base_of ctx (entry_path_type e)) \<noteq> None"
      and ex: "\<forall>k e. map_of local_lookup k = Some e \<longrightarrow> entry_info e \<noteq> Missing"
      by blast+
    from analyze_bidirectional_sync_result [OF so ex ub, of s3_objects]
    show "\<exists>r. analyze_bidirectional_sync it ctx local_lookup s3_objects = Inr r" by blast
  qed
  have c9: "get_local_files fm ctx w = Inr (files, lg) \<and> files \<noteq> []
        \<and> analyze_upload_files ctx (stat_of w) files
             (if incremental \<or> cleanup then list_s3_objects ctx (bucket w) else [])
             incremental cleanup = Inl err \<longrightarrow>
        upload_to_s3 fm ctx w run dry_run incremental cleanup = Inl err"
    by (simp add: upload_to_s3_def)
  have c10: "get_local_files fm ctx w = Inr (files, lg)
        \<and> for_each (local_lookup_step (stat_of w)) files [] = Inr local_lookup
        \<and> analyze_bidirectional_sync it ctx local_lookup (list_s3_objects ctx (bucket w))
             = Inl err \<longrightarrow>
        sync_bidirectional it fm ctx w run dry_run cleanup = Inl err"
    by (simp add: sync_bidirectional_def)
  show ?thesis by (intro conjI c1 c2 c3 c4 c5 c6 c7 c8 c9 c10)
qed

theorem analyzers_total_only_if_files_exist_witness:
  "get_file_info example_stat (Path ''/'' [''r'', ''gone'']) = Inr Missing
   \<and> local_lookup_step example_stat []
        (Path ''/'' [''r'', ''gone''], Path ''/'' [''r''], ''roaming'')
       = Inr [(''roaming/gone'',
                \<lparr> entry_path = Path ''/'' [''r'', ''gone''], entry_info = Missing,
                  entry_path_type = ''roaming'' \<rparr>)]
   \<and> analyze_upload_files example_ctx example_stat
        [(Path ''/'' [''r'', ''prefs.js''], Path ''/'' [''r''], ''roaming''),
         (Path ''/'' [''r'', ''gone''], Path ''/'' [''r''], ''roaming'')] [] True False
       = Inl (KeyError ''size'')
   \<and> (\<exists>r. analyze_upload_files example_ctx example_stat
        [(Path ''/'' [''r'', ''prefs.js''], Path ''/'' [''r''], ''roaming'')] [] True False
       = Inr r)
   \<and> analyze_bidirectional_sync remdups example_ctx
        [(''roaming/a'', \<lparr> entry_path = Path ''/'' [''r'', ''a''], entry_info = Missing,
                           entry_path_type = ''roaming'' \<rparr>)]
        example_listing
       = Inl (KeyError ''mtime'')
   \<and> analyze_bidirectional_sync remdups example_ctx
        [(''roaming/x'', \<lparr> entry_path = Path ''/'' [''r'', ''x''], entry_info = Missing,
                           entry_path_type = ''roaming'' \<rparr>)]
        example_listing
       = Inl (KeyError ''size'')
   \<and> (\<exists>r. analyze_bidirectional_sync remdups example_ctx example_lookup example_listing
          = Inr r)
   \<and> upload_to_s3 fnmatch example_ctx vanished_world run_ok False True False
       = Inl (KeyError ''size'')
   \<and> sync_bidirectional remdups fnmatch example_ctx vanished_world run_ok False False
       = Inl (KeyError ''mtime'')"
proof -
  note T = analyzers_total_only_if_files_exist
  let ?gone = "Path ''/'' [''r'', ''gone'']"
  let ?prefs = "Path ''/'' [''r'', ''prefs.js'']"
  let ?root = "Path ''/'' [''r'']"
  have n1: "\<not> has_nul ?gone" by code_simp
  have n2: "\<not> has_nul ?prefs" by code_simp
  have s1: "example_stat ?gone = None" by code_simp
  have s2: "example_stat ?prefs \<noteq> None" by code_simp
  have r1: "relative_to ?gone ?root \<noteq> None" by code_simp
  have r2: "relative_to ?prefs ?root \<noteq> None" by code_simp
  have k1: "get_relative_s3_key ?gone ?root ''roaming'' = Inr ''roaming/gone''" by code_simp
  have a: "get_file_info example_stat ?gone = Inr Missing"
    using T [where st = example_stat and fp = ?gone] s1 n1 by simp
  have a': "local_lookup_step example_stat [] (?gone, ?root, ''roaming'')
       = Inr [(''roaming/gone'',
                \<lparr> entry_path = ?gone, entry_info = Missing, entry_path_type = ''roaming'' \<rparr>)]"
    using T [where st = example_stat and fp = ?gone and bp = ?root and pt = "''roaming''"
        and rk = "''roaming/gone''" and ?lookup0.0 = "[]"] s1 n1 k1
    by simp
  have b: "analyze_upload_files example_ctx example_stat
        [(?prefs, ?root, ''roaming''), (?gone, ?root, ''roaming'')] [] True False
       = Inl (KeyError ''size'')"
    using T [where st = example_stat and ctx = example_ctx and s3_objects = "[]"
        and incremental = True and cleanup = False
        and files = "[(?prefs, ?root, ''roaming''), (?gone, ?root, ''roaming'')]"]
      n1 n2 s1 s2 r1 r2
    by simp
  have c: "\<exists>r. analyze_upload_files example_ctx example_stat
        [(?prefs, ?root, ''roaming'')] [] True False = Inr r"
    using T [where st = example_stat and ctx = example_ctx and s3_objects = "[]"
        and incremental = True and cleanup = False
        and files = "[(?prefs, ?root, ''roaming'')]"]
      n2 s2 r2
    by simp
  have d: "analyze_bidirectional_sync remdups example_ctx
        [(''roaming/a'', \<lparr> entry_path = Path ''/'' [''r'', ''a''], entry_info = Missing,
                           entry_path_type = ''roaming'' \<rparr>)]
        example_listing
       = Inl (KeyError ''mtime'')"
    using T [where it = remdups and ctx = example_ctx and s3_objects = example_listing
        and local_lookup = "[(''roaming/a'', \<lparr> entry_path = Path ''/'' [''r'', ''a''],
              entry_info = Missing, entry_path_type = ''roaming'' \<rparr>)]"]
      is_set_order_remdups
    by (simp add: example_listing_def)
  have ux: "relative_to (Path ''/'' [''r'', ''x'']) (base_of example_ctx ''roaming'') \<noteq> None"
    by code_simp
  have e: "analyze_bidirectional_sync remdups example_ctx
        [(''roaming/x'', \<lparr> entry_path = Path ''/'' [''r'', ''x''], entry_info = Missing,
                           entry_path_type = ''roaming'' \<rparr>)]
        example_listing
       = Inl (KeyError ''size'')"
    using T [where it = remdups and ctx = example_ctx and s3_objects = example_listing
        and local_lookup = "[(''roaming/x'', \<lparr> entry_path = Path ''/'' [''r'', ''x''],
              entry_info = Missing, entry_path_type = ''roaming'' \<rparr>)]"]
      is_set_order_remdups ux
    by (simp add: example_listing_def)
  have f: "\<exists>r. analyze_bidirectional_sync remdups example_ctx example_lookup example_listing
      = Inr r"
    using T [where it = remdups and ctx = example_ctx and s3_objects = example_listing
        and local_lookup = example_lookup]
      is_set_order_remdups
    by (simp add: example_lookup_def example_ctx_def base_of_def relative_to_def)
  have g1: "get_local_files fnmatch example_ctx vanished_world
      = Inr ([(?prefs, ?root, ''roaming'')], [])"
    by code_simp
  have g2: "analyze_upload_files example_ctx (stat_of vanished_world)
        [(?prefs, ?root, ''roaming'')]
        (if True \<or> False then list_s3_objects example_ctx (bucket vanished_world) else [])
        True False = Inl (KeyError ''size'')"
    by code_simp
  have g: "upload_to_s3 fnmatch example_ctx vanished_world run_ok False True False
      = Inl (KeyError ''size'')"
    using T [where fm = fnmatch and ctx = example_ctx and w = vanished_world and run = run_ok
        and dry_run = False and incremental = True and cleanup = False
        and files = "[(?prefs, ?root, ''roaming'')]"
        and lg = "[]" and err = "KeyError ''size''"] g1 g2
    by simp
  have h1: "for_each (local_lookup_step (stat_of vanished_world))
        [(?prefs, ?root, ''roaming'')] []
      = Inr [(''roaming/prefs.js'',
               \<lparr> entry_path = ?prefs, entry_info = Missing, entry_path_type = ''roaming'' \<rparr>)]"
    by code_simp
  have h2: "analyze_bidirectional_sync remdups example_ctx
        [(''roaming/prefs.js'',
           \<lparr> entry_path = ?prefs, entry_info = Missing, entry_path_type = ''roaming'' \<rparr>)]
        (list_s3_objects example_ctx (bucket vanished_world)) = Inl (KeyError ''mtime'')"
    by code_simp
  have h: "sync_bidirectional remdups fnmatch example_ctx vanished_world run_ok False False
      = Inl (KeyError ''mtime'')"
    using T [where it = remdups and fm = fnmatch and ctx = example_ctx and w = vanished_world
        and run = run_ok and dry_run = False and cleanup = False
        and files = "[(?prefs, ?root, ''roaming'')]" and lg = "[]"
        and err = "KeyError ''mtime''"
        and local_lookup = "[(''roaming/prefs.js'',
           \<lparr> entry_path = ?prefs, entry_info = Missing, entry_path_type = ''roaming'' \<rparr>)]"]
      g1 h1 h2
    by simp
  from a a' b c d e f g h show ?thesis by blast
qed

section \<open>Namespace mapper\<close>




section \<open>Directory pruning\<close>

text \<open>
  C1 (as the code has it). The scan of a root returns, in the order of the walk,
  exactly the files under the root that \<open>includeFile\<close> keeps and that have no
  pruned directory on the way from the root to them. A file directly in the root has
  no such directory, so it is returned exactly when \<open>includeFile\<close> keeps it.
\<close>

theorem scan_returns_kept_files_of_entered_directories:
  "node_at w base_path = Some node \<Longrightarrow>
   scan_directory fm ctx w base_path path_type =
     Inr (map (\<lambda>segs. (below base_path segs, base_path, path_type))
            (filter (\<lambda>segs. (\<forall>d \<in> set (butlast segs). \<not> skip_dir fm ctx d)
                      \<and> should_include_file fm ctx (below base_path segs) base_path = Inr True)
               (tree_files node)))"
proof -
  assume n: "node_at w base_path = Some node"
  have b: "below base_path [] = base_path"
    by (simp add: below_def)
  have k: "kept fm ctx base_path [] =
      (\<lambda>segs. (\<forall>d \<in> set (butlast segs). \<not> skip_dir fm ctx d)
         \<and> should_include_file fm ctx (below base_path segs) base_path = Inr True)"
    by (rule ext) (simp add: kept_def)
  from walk_result [of fm ctx base_path path_type "[]" node] n
  show ?thesis
    by (simp add: scan_directory_def b k)
qed

theorem scan_returns_kept_files_of_entered_directories_witness:
  "node_at example_world (Path ''/'' [''r'']) = Some example_tree
   \<and> tree_files example_tree = [[''prefs.js''], [''cache2'', ''data.db''], [''p'', ''cache2'', ''e'']]
   \<and> scan_directory fnmatch example_ctx example_world (Path ''/'' [''r'']) ''roaming''
       = Inr [(Path ''/'' [''r'', ''prefs.js''], Path ''/'' [''r''], ''roaming'')]"
proof -
  have n: "node_at example_world (Path ''/'' [''r'']) = Some example_tree"
    by (simp add: example_world_def)
  have t: "tree_files example_tree
      = [[''prefs.js''], [''cache2'', ''data.db''], [''p'', ''cache2'', ''e'']]"
    by code_simp
  have r: "map (\<lambda>segs. (below (Path ''/'' [''r'']) segs, Path ''/'' [''r''], ''roaming''))
            (filter (\<lambda>segs. (\<forall>d \<in> set (butlast segs). \<not> skip_dir fnmatch example_ctx d)
                      \<and> should_include_file fnmatch example_ctx
                            (below (Path ''/'' [''r'']) segs) (Path ''/'' [''r'']) = Inr True)
               [[''prefs.js''], [''cache2'', ''data.db''], [''p'', ''cache2'', ''e'']])
      = [(Path ''/'' [''r'', ''prefs.js''], Path ''/'' [''r''], ''roaming'')]"
    by code_simp
  from scan_returns_kept_files_of_entered_directories [OF n, of fnmatch example_ctx "''roaming''"]
    n t r
  show ?thesis by simp
qed

text \<open>The claim as the specification states it fails below the first level: the
  exclude pattern \<open>cache2/*\<close> prunes every directory named \<open>cache2\<close>, while the
  file-level test keeps \<open>p/cache2/e\<close>, whose relative path the pattern does not
  match.\<close>

theorem pruning_not_conservative_counterexample:
  "node_at example_world (Path ''/'' [''r'']) = Some example_tree
   \<and> [''p'', ''cache2'', ''e''] \<in> set (tree_files example_tree)
   \<and> should_include_file fnmatch example_ctx
        (Path ''/'' [''r'', ''p'', ''cache2'', ''e'']) (Path ''/'' [''r'']) = Inr True
   \<and> scan_directory fnmatch example_ctx example_world (Path ''/'' [''r'']) ''roaming''
       = Inr [(Path ''/'' [''r'', ''prefs.js''], Path ''/'' [''r''], ''roaming'')]"
  by code_simp

section \<open>Cleanup in push mode\<close>

lemma upload_calls_no_deletion:
  "filter is_deletion (map snd (map upload_call xs)) = []"
  by (induction xs) (auto simp: upload_call_def)

lemma delete_calls_all_deletion:
  "filter is_deletion (map snd (map delete_s3_call xs))
     = map (\<lambda>(k, key, sz). DeleteS3File key) xs"
  by (induction xs) (auto simp: delete_s3_call_def)

lemma process_uploads_ops:
  "process_files a False run (map upload_call xs) = (b, lg, os) \<Longrightarrow> filter is_deletion os = []"
  using upload_calls_no_deletion [of xs]
  by (auto simp: process_files_def split: if_splits)

lemma process_deletes_ops:
  "process_files a False run (map delete_s3_call xs) = (b, lg, os) \<Longrightarrow>
   filter is_deletion os = map (\<lambda>(k, key, sz). DeleteS3File key) xs"
  using delete_calls_all_deletion [of xs]
  by (auto simp: process_files_def split: if_splits)

text \<open>
  What the cleanup of a push deletes. The analysis queues a remote object exactly when
  its relative key is the relative key of no file of the filtered local listing. When
  that listing is not empty, a push that is no dry run issues one delete call for each
  queued object and no other; when it is empty the push ends before the analysis and
  deletes nothing.
\<close>

lemma push_cleanup_deletions:
  "(analyze_upload_files ctx st files s3_objects incremental True = Inr (ups, skips, dels) \<longrightarrow>
      (\<exists>ks. relative_keys files = Inr ks
         \<and> dels = map (\<lambda>(k, s3_info). (k, s3_key s3_info, s3_size s3_info))
                    (filter (\<lambda>(k, s3_info). k \<notin> set ks) s3_objects)))
   \<and> (get_local_files fm ctx w = Inr (files, lg) \<and> files \<noteq> []
        \<and> upload_to_s3 fm ctx w run False incremental True = Inr out \<longrightarrow>
      (\<exists>ks. relative_keys files = Inr ks
         \<and> filter is_deletion (ops out)
             = map (\<lambda>(k, s3_info). DeleteS3File (s3_key s3_info))
                 (filter (\<lambda>(k, s3_info). k \<notin> set ks) (list_s3_objects ctx (bucket w)))))"
proof (intro conjI impI)
  assume "analyze_upload_files ctx st files s3_objects incremental True = Inr (ups, skips, dels)"
  then show "\<exists>ks. relative_keys files = Inr ks
         \<and> dels = map (\<lambda>(k, s3_info). (k, s3_key s3_info, s3_size s3_info))
                    (filter (\<lambda>(k, s3_info). k \<notin> set ks) s3_objects)"
    by (auto simp: analyze_upload_files_def cleanup_remote_def split: sum.splits prod.splits)
next
  let ?s3 = "list_s3_objects ctx (bucket w)"
  assume a: "get_local_files fm ctx w = Inr (files, lg) \<and> files \<noteq> []
        \<and> upload_to_s3 fm ctx w run False incremental True = Inr out"
  then have g: "get_local_files fm ctx w = Inr (files, lg)" and ne: "files \<noteq> []"
    and up: "upload_to_s3 fm ctx w run False incremental True = Inr out" by simp_all
  from g ne up obtain u s d where
    an: "analyze_upload_files ctx (stat_of w) files ?s3 incremental True = Inr (u, s, d)"
    by (auto simp: upload_to_s3_def split: sum.splits)
  then obtain ks where ks: "relative_keys files = Inr ks"
    and d: "d = map (\<lambda>(k, s3_info). (k, s3_key s3_info, s3_size s3_info))
                    (filter (\<lambda>(k, s3_info). k \<notin> set ks) ?s3)"
    by (auto simp: analyze_upload_files_def cleanup_remote_def split: sum.splits prod.splits)
  have m: "map (\<lambda>(k, key, sz). DeleteS3File key) d
      = map (\<lambda>(k, s3_info). DeleteS3File (s3_key s3_info))
          (filter (\<lambda>(k, s3_info). k \<notin> set ks) ?s3)"
    unfolding d by (simp add: case_prod_unfold)
  have "filter is_deletion (ops out) = map (\<lambda>(k, key, sz). DeleteS3File key) d"
  proof (cases "u = [] \<and> d = []")
    case True
    with g ne up an show ?thesis by (auto simp: upload_to_s3_def)
  next
    case False
    obtain b1 l1 o1 where p1: "process_files ''uploading'' False run (map upload_call u) = (b1, l1, o1)"
      by (cases "process_files ''uploading'' False run (map upload_call u)") auto
    obtain b2 l2 o2 where p2: "(if d \<noteq> [] then process_files ''deleting'' False run
        (map delete_s3_call d) else (True, [], [])) = (b2, l2, o2)"
      by (cases "if d \<noteq> [] then process_files ''deleting'' False run
        (map delete_s3_call d) else (True, [], [])") auto
    from g ne up an False p1 p2 have o: "ops out = o1 @ o2"
      by (auto simp: upload_to_s3_def)
    have "filter is_deletion o2 = map (\<lambda>(k, key, sz). DeleteS3File key) d"
      using p2 process_deletes_ops [of "''deleting''" run d b2 l2 o2]
      by (cases "d = []") auto
    with o process_uploads_ops [OF p1] show ?thesis by simp
  qed
  with ks m show "\<exists>ks. relative_keys files = Inr ks
         \<and> filter is_deletion (ops out)
             = map (\<lambda>(k, s3_info). DeleteS3File (s3_key s3_info))
                 (filter (\<lambda>(k, s3_info). k \<notin> set ks) ?s3)"
    by simp
qed

text \<open>
  C2. The claim fails on the code, on the scenario it names. The file
  \<open>cache2/data.db\<close> exists under the roaming root, the exclude pattern
  \<open>cache2/*\<close> keeps it out of the local listing and no include pattern brings it
  back. The push with cleanup compares the remote keys with the keys of that listing
  alone: it queues the remote object of the file and issues the delete call for it.
  The command line documents the option as removing the remote files that no longer
  exist locally; this file exists.
\<close>

theorem cleanup_deletes_object_of_excluded_file:
  "node_at example_world (Path ''/'' [''r'']) = Some example_tree
   \<and> [''cache2'', ''data.db''] \<in> set (tree_files example_tree)
   \<and> stat_of example_world (Path ''/'' [''r'', ''cache2'', ''data.db''])
       = Some \<lparr> st_size = 7, st_mtime = 60, file_hash = ''h2'' \<rparr>
   \<and> should_include_file fnmatch example_ctx
        (Path ''/'' [''r'', ''cache2'', ''data.db'']) (Path ''/'' [''r'']) = Inr False
   \<and> get_s3_key example_ctx (Path ''/'' [''r'', ''cache2'', ''data.db'']) (Path ''/'' [''r''])
        ''roaming'' = Inr ''zen/roaming/cache2/data.db''
   \<and> map fst (bucket example_world) = [''zen/roaming/cache2/data.db'', ''zen/roaming/prefs.js'']
   \<and> get_local_files fnmatch example_ctx example_world
       = Inr ([(Path ''/'' [''r'', ''prefs.js''], Path ''/'' [''r''], ''roaming'')], [])
   \<and> analyze_upload_files example_ctx (stat_of example_world)
        [(Path ''/'' [''r'', ''prefs.js''], Path ''/'' [''r''], ''roaming'')]
        (list_s3_objects example_ctx (bucket example_world)) True True
       = Inr ([(Path ''/'' [''r'', ''prefs.js''], ''zen/roaming/prefs.js'', 100, ''roaming'')], [],
              [(''roaming/cache2/data.db'', ''zen/roaming/cache2/data.db'', 7)])
   \<and> upload_to_s3 fnmatch example_ctx example_world run_ok False True True
       = Inr \<lparr> ok = True, logged = [],
               ops = [UploadFile (Path ''/'' [''r'', ''prefs.js'']) ''zen/roaming/prefs.js''
                        ''roaming'',
                      DeleteS3File ''zen/roaming/cache2/data.db''] \<rparr>"
  by code_simp

section \<open>Push twice\<close>

text \<open>
  C9 (as the code has it). With cleanup off and incremental on, when the first push
  completes (the analysis returns and every queued upload is applied, recording size
  and hash) and no local file changes, the second push queues no upload and no
  deletion and every file lands in the skip list, provided that the listed files have
  pairwise distinct relative keys. The theorem is for a prefix without backslash, a
  bucket whose keys are unique, and a store that accepts the metadata unless metadata
  is switched off.
\<close>

theorem push_idempotent:
  assumes "push_twice ctx w files = Some second"
    and keys: "relative_keys files = Inr ks" "distinct ks"
    and pre: "CHR 0x5C \<notin> set (prefix ctx)"
    and bkt: "distinct (map fst (bucket w))"
    and md: "accepts_metadata w \<or> disable_metadata ctx"
  shows "\<exists>skips. second = Inr ([], skips, []) \<and> map fst skips = map fst files"
proof -
  let ?st = "stat_of w" and ?s3 = "list_s3_objects ctx (bucket w)"
  from assms(1) obtain ups skips1 dels1 ctx' w' where
    run1: "analyze_upload_files ctx ?st files ?s3 True False = Inr (ups, skips1, dels1)"
    and applied: "apply_uploads ctx w ups = Some (ctx', w')"
    and second: "second = analyze_upload_files ctx' (stat_of w') files
                   (list_s3_objects ctx' (bucket w')) True False"
    by (auto simp: push_twice_def split: sum.splits option.splits)
  from run1 have loop: "for_each (upload_step ctx ?st ?s3 True) files ([], []) = Inr (ups, skips1)"
    by (auto simp: analyze_upload_files_def split: sum.splits)
  note ap = apply_uploads_result [OF applied md]
  from ap have c: "ctx' = ctx" and st: "stat_of w' = ?st" by blast+
  from ap bkt have bkt': "distinct (map fst (bucket w'))" by blast
  let ?s3' = "list_s3_objects ctx (bucket w')"
  note inv = push_loop_invariants [OF loop]
  from inv have i2: "\<forall>item \<in> set ups.
      \<exists>fp bp pt k sz. (fp, bp, pt) \<in> set files \<and> item = (fp, k, sz, pt)
        \<and> get_s3_key ctx fp bp pt = Inr k" by simp
  from inv have i3: "\<forall>(fp, bp, pt) \<in> set files.
           \<exists>rk s k. get_relative_s3_key fp bp pt = Inr rk \<and> get_s3_key ctx fp bp pt = Inr k
             \<and> ?st fp = Some s \<and> \<not> has_nul fp
             \<and> ((\<exists>sz. (fp, k, sz, pt) \<in> set ups)
                \<or> (\<exists>info. map_of ?s3 rk = Some info
                      \<and> \<not> files_are_different (file_record ?st fp) info))" by blast
  have rb: "replace_backslash (prefix ctx) = prefix ctx"
    using pre by (rule replace_backslash_id)
  have each: "\<forall>f \<in> set files. \<forall>u s.
     \<exists>k sz. upload_step ctx ?st ?s3' True (u, s) f = Inr (u, s @ [(fst f, k, sz)])"
  proof (intro ballI allI)
    fix f u s0 assume fin: "f \<in> set files"
    obtain fp bp pt where f: "f = (fp, bp, pt)" by (cases f)
    from i3 fin f obtain rk s k where
      rk: "get_relative_s3_key fp bp pt = Inr rk" and k: "get_s3_key ctx fp bp pt = Inr k"
      and s: "?st fp = Some s" and nn: "\<not> has_nul fp"
      and cls: "(\<exists>sz. (fp, k, sz, pt) \<in> set ups)
                \<or> (\<exists>info. map_of ?s3 rk = Some info
                      \<and> \<not> files_are_different (file_record ?st fp) info)" by fastforce
    from s3_key_of_relative_key [OF rk, of ctx] k rb have kk: "k = prefix ctx @ rk" by simp
    have li: "file_record ?st fp = Found (st_size s) (st_mtime s) (file_hash s)"
      using s by (simp add: file_record_def)
    have gi: "get_file_info ?st fp = Inr (file_record ?st fp)"
      using nn by (rule get_file_info_no_nul)
    have "\<exists>info. map_of ?s3' rk = Some info
        \<and> \<not> files_are_different (file_record ?st fp) info"
    proof (cases "\<exists>(fp2, k', sz, pt2) \<in> set ups. k' = k")
      case True
      with ap [of k] obtain fp2 sz2 pt2 s2 obj where
        it: "(fp2, k, sz2, pt2) \<in> set ups" and s2: "?st fp2 = Some s2"
        and rec: "records ctx s2 obj" and lk: "map_of (bucket w') k = Some obj" by blast
      from i2 it obtain bp2 where f2: "(fp2, bp2, pt2) \<in> set files"
        and k2: "get_s3_key ctx fp2 bp2 pt2 = Inr k" by fastforce
      from relative_keys_mem [OF keys(1) f2] obtain rk2 where
        rk2: "get_relative_s3_key fp2 bp2 pt2 = Inr rk2" by blast
      from s3_key_of_relative_key [OF rk2, of ctx] k2 rb kk have "rk2 = rk" by simp
      with rk2 have "get_relative_s3_key fp2 bp2 pt2 = Inr rk" by simp
      from relative_keys_inj [OF keys f2 _ this rk] fin f have "fp2 = fp" by simp
      with s2 s have "s2 = s" by simp
      with rec have "\<not> files_are_different (Found (st_size s) (st_mtime s) (file_hash s))
          (obj_info ctx k obj)" by (simp add: records_identical)
      moreover have "map_of ?s3' rk = Some (obj_info ctx k obj)"
        using listing_lookup [OF bkt', of ctx rk] lk kk by simp
      ultimately show ?thesis using li by simp
    next
      case False
      then have no: "\<forall>(fp2, k', sz, pt2) \<in> set ups. k' \<noteq> k" by auto
      with ap [of k] have "map_of (bucket w') k = map_of (bucket w) k" by blast
      then have same: "map_of ?s3' rk = map_of ?s3 rk"
        using listing_lookup [OF bkt', of ctx rk] listing_lookup [OF bkt, of ctx rk] kk by simp
      from no have "\<not> (\<exists>sz. (fp, k, sz, pt) \<in> set ups)" by auto
      with cls same show ?thesis by simp
    qed
    then obtain info where info: "map_of ?s3' rk = Some info"
      "\<not> files_are_different (file_record ?st fp) info" by blast
    have "upload_step ctx ?st ?s3' True (u, s0) (fp, bp, pt) = Inr (u, s0 @ [(fp, k, st_size s)])"
      using rk k info li gi by (simp add: upload_step_def)
    with f show "\<exists>k sz. upload_step ctx ?st ?s3' True (u, s0) f = Inr (u, s0 @ [(fst f, k, sz)])"
      by auto
  qed
  from push_loop_all_skipped [OF each, of "[]" "[]"] obtain s' where
    "for_each (upload_step ctx ?st ?s3' True) files ([], []) = Inr ([], s')"
    "map fst s' = map fst files" by auto
  with second c st show ?thesis
    by (simp add: analyze_upload_files_def)
qed

theorem push_idempotent_witness:
  "push_twice example_ctx example_world
     [(Path ''/'' [''r'', ''prefs.js''], Path ''/'' [''r''], ''roaming'')]
     = Some (Inr ([], [(Path ''/'' [''r'', ''prefs.js''], ''zen/roaming/prefs.js'', 100)], []))
   \<and> relative_keys [(Path ''/'' [''r'', ''prefs.js''], Path ''/'' [''r''], ''roaming'')]
       = Inr [''roaming/prefs.js'']
   \<and> (\<exists>skips. Inr ([], [(Path ''/'' [''r'', ''prefs.js''], ''zen/roaming/prefs.js'', 100)], [])
                = (Inr ([], skips, [])
                    :: py_error + (upload_item list \<times> skip_item list \<times> delete_s3_item list))
              \<and> map fst skips = [Path ''/'' [''r'', ''prefs.js'']])"
proof -
  have h1: "push_twice example_ctx example_world
     [(Path ''/'' [''r'', ''prefs.js''], Path ''/'' [''r''], ''roaming'')]
     = Some (Inr ([], [(Path ''/'' [''r'', ''prefs.js''], ''zen/roaming/prefs.js'', 100)], []))"
    by code_simp
  have h2: "relative_keys [(Path ''/'' [''r'', ''prefs.js''], Path ''/'' [''r''], ''roaming'')]
       = Inr [''roaming/prefs.js'']"
    by code_simp
  have h3: "distinct [''roaming/prefs.js'']"
    by simp
  have h4: "CHR 0x5C \<notin> set (prefix example_ctx)"
    by (simp add: example_ctx_def)
  have h5: "distinct (map fst (bucket example_world))"
    by (simp add: example_world_def)
  have h6: "accepts_metadata example_world \<or> disable_metadata example_ctx"
    by (simp add: example_world_def)
  from push_idempotent [OF h1 h2 h3 h4 h5 h6] h1 h2 show ?thesis by simp
qed

text \<open>The claim as the specification states it fails when two local files share a
  relative key: on a POSIX file system the file \<open>a\b\<close> and the file \<open>b\<close> in the
  directory \<open>a\<close> both map to \<open>roaming/a/b\<close>, the second upload of the first run
  replaces the first, and the second run uploads \<open>a\b\<close> again.\<close>

theorem push_not_idempotent_counterexample:
  "get_local_files fnmatch example_ctx collide_world
     = Inr ([(Path ''/'' [''r'', [CHR ''a'', CHR 0x5C, CHR ''b'']], Path ''/'' [''r''], ''roaming''),
             (Path ''/'' [''r'', ''a'', ''b''], Path ''/'' [''r''], ''roaming'')], [])
   \<and> push_twice example_ctx collide_world
        [(Path ''/'' [''r'', [CHR ''a'', CHR 0x5C, CHR ''b'']], Path ''/'' [''r''], ''roaming''),
         (Path ''/'' [''r'', ''a'', ''b''], Path ''/'' [''r''], ''roaming'')]
     = Some (Inr ([(Path ''/'' [''r'', [CHR ''a'', CHR 0x5C, CHR ''b'']], ''zen/roaming/a/b'', 1,
                    ''roaming'')],
                  [(Path ''/'' [''r'', ''a'', ''b''], ''zen/roaming/a/b'', 2)], []))"
  by code_simp

text \<open>A prefix that contains a backslash is outside the theorem: the upload key
  carries the prefix with the backslash replaced, the listing asks for the prefix as
  configured, and the second run finds nothing to compare with.\<close>

lemma push_twice_backslash_prefix_example:
  "push_twice (example_ctx\<lparr>prefix := [CHR ''z'', CHR 0x5C]\<rparr>) example_world
     [(Path ''/'' [''r'', ''prefs.js''], Path ''/'' [''r''], ''roaming'')]
     = Some (Inr ([(Path ''/'' [''r'', ''prefs.js''], ''z/roaming/prefs.js'', 100, ''roaming'')],
                  [], []))"
  by code_simp


end
